theory Spec2Isabelle
  imports Main "HOL-Library.Sublist"
begin

section \<open>Strings and the string primitives the renderer uses\<close>

text \<open>
  A JavaScript string is modelled as a \<^typ>\<open>string\<close>, one \<^typ>\<open>char\<close> per code unit, so
  the strings of the model are those of code units below 256 (ASCII and Latin-1). On these the
  character classes below are the ones of the source: \<^verbatim>\<open>[a-z]\<close> under the flags \<^verbatim>\<open>iu\<close>
  matches the ASCII letters only, \<^verbatim>\<open>\s\<close> and \<^verbatim>\<open>trim\<close> take the six ASCII white-space
  characters and the no-break space, and \<^verbatim>\<open>toLowerCase\<close> changes the ASCII capitals and the
  capitals of Latin-1.
\<close>

text \<open>\<^verbatim>\<open>s.indexOf(c)\<close> for a one-character needle: the first index, or -1.\<close>

fun indexOf :: "string \<Rightarrow> char \<Rightarrow> int" where
  "indexOf [] c = - 1"
| "indexOf (x # xs) c =
     (if x = c then 0
      else (let r = indexOf xs c in if r < 0 then - 1 else r + 1))"

text \<open>\<^verbatim>\<open>s.slice(i)\<close> and \<^verbatim>\<open>s.slice(0, i)\<close>, used by the source only with \<open>0 \<le> i\<close>.\<close>

definition sliceFrom :: "string \<Rightarrow> int \<Rightarrow> string" where
  "sliceFrom s i = drop (nat i) s"

definition sliceTo :: "string \<Rightarrow> int \<Rightarrow> string" where
  "sliceTo s i = take (nat i) s"

definition lowerLetters :: string where
  "lowerLetters = ''abcdefghijklmnopqrstuvwxyz''"

definition upperLetters :: string where
  "upperLetters = ''ABCDEFGHIJKLMNOPQRSTUVWXYZ''"

definition digits :: string where
  "digits = ''0123456789''"

definition isLetter :: "char \<Rightarrow> bool" where
  "isLetter c = (c \<in> set lowerLetters \<or> c \<in> set upperLetters)"

definition isDigit :: "char \<Rightarrow> bool" where
  "isDigit c = (c \<in> set digits)"

text \<open>
  The capitals of Latin-1, U+00C0 to U+00DE without the multiplication sign U+00D7, and
  their small letters, U+00E0 to U+00FE without the division sign U+00F7.
\<close>

definition upperLatin1 :: string where
  "upperLatin1 =
     [CHR 0xC0, CHR 0xC1, CHR 0xC2, CHR 0xC3, CHR 0xC4, CHR 0xC5, CHR 0xC6, CHR 0xC7,
      CHR 0xC8, CHR 0xC9, CHR 0xCA, CHR 0xCB, CHR 0xCC, CHR 0xCD, CHR 0xCE, CHR 0xCF,
      CHR 0xD0, CHR 0xD1, CHR 0xD2, CHR 0xD3, CHR 0xD4, CHR 0xD5, CHR 0xD6,
      CHR 0xD8, CHR 0xD9, CHR 0xDA, CHR 0xDB, CHR 0xDC, CHR 0xDD, CHR 0xDE]"

definition lowerLatin1 :: string where
  "lowerLatin1 =
     [CHR 0xE0, CHR 0xE1, CHR 0xE2, CHR 0xE3, CHR 0xE4, CHR 0xE5, CHR 0xE6, CHR 0xE7,
      CHR 0xE8, CHR 0xE9, CHR 0xEA, CHR 0xEB, CHR 0xEC, CHR 0xED, CHR 0xEE, CHR 0xEF,
      CHR 0xF0, CHR 0xF1, CHR 0xF2, CHR 0xF3, CHR 0xF4, CHR 0xF5, CHR 0xF6,
      CHR 0xF8, CHR 0xF9, CHR 0xFA, CHR 0xFB, CHR 0xFC, CHR 0xFD, CHR 0xFE]"

text \<open>\<^verbatim>\<open>toLowerCase\<close>, character by character.\<close>

definition toLowerChar :: "char \<Rightarrow> char" where
  "toLowerChar c =
     (case map_of (zip upperLetters lowerLetters) c of
        Some l \<Rightarrow> l
      | None \<Rightarrow> (case map_of (zip upperLatin1 lowerLatin1) c of Some l \<Rightarrow> l | None \<Rightarrow> c))"

definition toLowerCase :: "string \<Rightarrow> string" where
  "toLowerCase s = map toLowerChar s"

text \<open>
  The class \<^verbatim>\<open>\s\<close>, which is also what \<^verbatim>\<open>trim\<close> removes: tab, line feed, vertical tab,
  form feed, carriage return, space and the no-break space U+00A0.
\<close>

definition isSpace :: "char \<Rightarrow> bool" where
  "isSpace c =
     (c \<in> set [CHR 0x09, CHR 0x0A, CHR 0x0B, CHR 0x0C, CHR 0x0D, CHR '' '', CHR 0xA0])"

text \<open>\<^verbatim>\<open>s.trim()\<close>.\<close>

definition trim :: "string \<Rightarrow> string" where
  "trim s = rev (dropWhile isSpace (rev (dropWhile isSpace s)))"

text \<open>
  \<^verbatim>\<open>s.split(/\s+/u)[0]\<close>: the text before the first run of white space. The array that
  \<^verbatim>\<open>split\<close> returns is never empty (it is \<^verbatim>\<open>[""]\<close> for the empty string), so the
  source's \<^verbatim>\<open>?.\<close> and \<^verbatim>\<open>?? ""\<close> never take their fallback.
\<close>

definition firstWord :: "string \<Rightarrow> string" where
  "firstWord s = takeWhile (\<lambda>c. \<not> isSpace c) s"

text \<open>\<^verbatim>\<open>s.includes(t)\<close>.\<close>

fun includesStr :: "string \<Rightarrow> string \<Rightarrow> bool" where
  "includesStr [] t = (t = [])"
| "includesStr (x # xs) t = (prefix t (x # xs) \<or> includesStr xs t)"

text \<open>\<open>adjacent a b s\<close>: somewhere in \<open>s\<close>, \<open>a\<close> is directly followed by \<open>b\<close>.\<close>

fun adjacent :: "char \<Rightarrow> char \<Rightarrow> string \<Rightarrow> bool" where
  "adjacent a b (x # y # r) = ((x = a \<and> y = b) \<or> adjacent a b (y # r))"
| "adjacent a b [x] = False"
| "adjacent a b [] = False"

text \<open>\<^verbatim>\<open>s.replace(/c/gu, r)\<close> for a one-character pattern \<open>c\<close>.\<close>

fun replaceAll :: "char \<Rightarrow> string \<Rightarrow> string \<Rightarrow> string" where
  "replaceAll c r [] = []"
| "replaceAll c r (x # xs) = (if x = c then r @ replaceAll c r xs else x # replaceAll c r xs)"


section \<open>Href parts and classification (render/markdownRenderer)\<close>

record HrefParts =
  pathPart :: string
  query :: string
  fragment :: string

definition splitHref :: "string \<Rightarrow> HrefParts" where
  "splitHref href =
     (let hashIndex = indexOf href CHR ''#'';
          fragment = (if hashIndex \<ge> 0 then sliceFrom href (hashIndex + 1) else []);
          withoutFragment = (if hashIndex \<ge> 0 then sliceTo href hashIndex else href);
          queryIndex = indexOf withoutFragment CHR ''?'';
          query = (if queryIndex \<ge> 0 then sliceFrom withoutFragment (queryIndex + 1) else []);
          pathPart = (if queryIndex \<ge> 0 then sliceTo withoutFragment queryIndex
                      else withoutFragment)
      in \<lparr> pathPart = pathPart, query = query, fragment = fragment \<rparr>)"

text \<open>
  The reassembly the specification states for \<open>HrefParts\<close>; the source has no function
  for it, so this definition follows the specification's words:
  \<^verbatim>\<open>pathPart + ('?'+query if query) + ('#'+fragment if fragment)\<close>.
\<close>

definition reassemble :: "HrefParts \<Rightarrow> string" where
  "reassemble p =
     pathPart p
     @ (if query p \<noteq> [] then CHR ''?'' # query p else [])
     @ (if fragment p \<noteq> [] then CHR ''#'' # fragment p else [])"

text \<open>\<^verbatim>\<open>/^[a-z]:[/\\]/iu.test(value)\<close>\<close>

fun isLikelyWindowsAbsolutePath :: "string \<Rightarrow> bool" where
  "isLikelyWindowsAbsolutePath (c # d # e # rest) =
     (isLetter c \<and> d = CHR '':'' \<and> (e = CHR ''/'' \<or> e = CHR 0x5C))"
| "isLikelyWindowsAbsolutePath _ = False"

text \<open>
  \<^verbatim>\<open>/^[a-z][a-z0-9+.-]*:/iu.test(value)\<close>. The colon is not in the starred class, so
  the expression matches exactly when the longest run of scheme characters after the first
  letter is followed by a colon.
\<close>

definition isSchemeChar :: "char \<Rightarrow> bool" where
  "isSchemeChar c = (isLetter c \<or> isDigit c \<or> c = CHR ''+'' \<or> c = CHR ''.'' \<or> c = CHR ''-'')"

fun hasUriScheme :: "string \<Rightarrow> bool" where
  "hasUriScheme [] = False"
| "hasUriScheme (c # cs) =
     (isLetter c \<and> (case dropWhile isSchemeChar cs of [] \<Rightarrow> False | d # _ \<Rightarrow> d = CHR '':''))"

definition isExternalHref :: "string \<Rightarrow> bool" where
  "isExternalHref v = (if isLikelyWindowsAbsolutePath v then False else hasUriScheme v)"

text \<open>\<^verbatim>\<open>/^data:/iu.test(value)\<close>\<close>

definition isDataUri :: "string \<Rightarrow> bool" where
  "isDataUri v = (toLowerCase (take 5 v) = ''data:'')"


section \<open>The host: Node's path module, the editor's Uri, the highlighter\<close>

text \<open>
  \<^verbatim>\<open>node:path\<close> is \<^verbatim>\<open>path.posix\<close> or \<^verbatim>\<open>path.win32\<close>, by the platform the
  extension host runs on. \<^verbatim>\<open>isAbsolute\<close> and \<^verbatim>\<open>extname\<close> are modelled after Node's
  implementation; \<^verbatim>\<open>join\<close>, \<^verbatim>\<open>resolve\<close> and \<^verbatim>\<open>dirname\<close> are fields of the host.
\<close>

datatype platform = Posix | Win32

definition isPathSeparator :: "platform \<Rightarrow> char \<Rightarrow> bool" where
  "isPathSeparator pf c = (c = CHR ''/'' \<or> (pf = Win32 \<and> c = CHR 0x5C))"

text \<open>
  \<^verbatim>\<open>path.isAbsolute\<close>. POSIX: the path starts with a slash. Windows: it starts with a
  separator, or with a drive letter, a colon and a separator.
\<close>

fun path_isAbsolute :: "platform \<Rightarrow> string \<Rightarrow> bool" where
  "path_isAbsolute pf [] = False"
| "path_isAbsolute Posix (c # cs) = (c = CHR ''/'')"
| "path_isAbsolute Win32 (c # cs) =
     (if isPathSeparator Win32 c then True
      else (case cs of
              d # e # _ \<Rightarrow> isLetter c \<and> d = CHR '':'' \<and> isPathSeparator Win32 e
            | _ \<Rightarrow> False))"

text \<open>
  \<^verbatim>\<open>path.extname\<close>: one scan from the end of the path towards its start, over the
  variables of Node's loop. \<open>extname_loop pf path start n st\<close> runs the iterations for
  the indices \<open>n - 1\<close> down to \<open>start\<close>.
\<close>

record ext_state =
  startDot :: int
  startPart :: int
  endIdx :: int
  matchedSlash :: bool
  preDotState :: int

fun extname_loop :: "platform \<Rightarrow> string \<Rightarrow> nat \<Rightarrow> nat \<Rightarrow> ext_state \<Rightarrow> ext_state" where
  "extname_loop pf path start 0 st = st"
| "extname_loop pf path start (Suc i) st =
     (if Suc i \<le> start then st
      else
        (let code = path ! i in
         if isPathSeparator pf code then
           (if matchedSlash st then extname_loop pf path start i st
            else st\<lparr>startPart := int i + 1\<rparr>)
         else
           (let st1 = (if endIdx st = - 1
                       then st\<lparr>matchedSlash := False, endIdx := int i + 1\<rparr> else st);
                st2 = (if code = CHR ''.''
                       then (if startDot st1 = - 1 then st1\<lparr>startDot := int i\<rparr>
                             else if preDotState st1 \<noteq> 1 then st1\<lparr>preDotState := 1\<rparr>
                             else st1)
                       else if startDot st1 \<noteq> - 1 then st1\<lparr>preDotState := - 1\<rparr>
                       else st1)
            in extname_loop pf path start i st2)))"

definition extname_start :: "platform \<Rightarrow> string \<Rightarrow> nat" where
  "extname_start pf path =
     (case path of
        c # d # _ \<Rightarrow> (if pf = Win32 \<and> d = CHR '':'' \<and> isLetter c then 2 else 0)
      | _ \<Rightarrow> 0)"

definition path_extname :: "platform \<Rightarrow> string \<Rightarrow> string" where
  "path_extname pf path =
     (let start = extname_start pf path;
          st = extname_loop pf path start (length path)
                 \<lparr>startDot = - 1, startPart = int start, endIdx = - 1,
                  matchedSlash = True, preDotState = 0\<rparr>
      in if startDot st = - 1 \<or> endIdx st = - 1 \<or> preDotState st = 0
            \<or> (preDotState st = 1 \<and> startDot st = endIdx st - 1
                \<and> startDot st = startPart st + 1)
         then []
         else take (nat (endIdx st) - nat (startDot st)) (drop (nat (startDot st)) path))"

text \<open>
  A \<^verbatim>\<open>vscode.Uri\<close>, as far as the renderer reads it. \<^verbatim>\<open>Uri.file(p)\<close> keeps the path
  as given (the editor's normalisation of separators is not modelled);
  \<^verbatim>\<open>uri.with({query, fragment})\<close> replaces the two components.
\<close>

record Uri =
  scheme :: string
  fsPath :: string
  uriQuery :: string
  uriFragment :: string

definition Uri_file :: "string \<Rightarrow> Uri" where
  "Uri_file p = \<lparr> scheme = ''file'', fsPath = p, uriQuery = [], uriFragment = [] \<rparr>"

definition Uri_with :: "Uri \<Rightarrow> string \<Rightarrow> string \<Rightarrow> Uri" where
  "Uri_with u q f = u\<lparr> uriQuery := q, uriFragment := f \<rparr>"

text \<open>What a call into the host can throw.\<close>

datatype exn = UriError

record host =
  hostPlatform :: platform
  path_join :: "string \<Rightarrow> string \<Rightarrow> string"
  path_resolve :: "string \<Rightarrow> string \<Rightarrow> string"
  path_dirname :: "string \<Rightarrow> string"
  Uri_parse :: "string \<Rightarrow> exn + Uri"
  workspaceFolders :: "string list"
  hljs_getLanguage :: "string \<Rightarrow> bool"
  hljs_highlight :: "string \<Rightarrow> string \<Rightarrow> string"
  md_unescape :: "string \<Rightarrow> string"

text \<open>
  \<open>workspaceFolders\<close> lists \<^verbatim>\<open>vscode.workspace.workspaceFolders\<close> by \<^verbatim>\<open>uri.fsPath\<close>
  (empty when the editor has none); \<open>hljs_highlight h code language\<close> is
  \<^verbatim>\<open>hljs.highlight(code, {language, ignoreIllegals: true}).value\<close>; \<open>md_unescape\<close> is
  what markdown-it's \<^verbatim>\<open>unescapeAll\<close> does to a string that holds a backslash or an
  ampersand.
\<close>


section \<open>Render context and link rewriting (render/markdownRenderer)\<close>

record RendererSettings =
  autoUpdateDebounceMs :: int
  enableMermaid :: bool
  enableMath :: bool
  enableTaskLists :: bool
  enableFootnotes :: bool

text \<open>
  \<open>documentUriString\<close> is \<^verbatim>\<open>document.uri.toString()\<close>, \<open>asWebviewUri ctx u\<close> is
  \<^verbatim>\<open>webview.asWebviewUri(u).toString()\<close>, \<open>workspaceFolder\<close> is
  \<^verbatim>\<open>workspaceFolder?.uri.fsPath\<close>.
\<close>

record RenderContext =
  documentUri :: Uri
  documentUriString :: string
  asWebviewUri :: "Uri \<Rightarrow> string"
  workspaceFolder :: "string option"
  settings :: RendererSettings

datatype LinkKind = Hash | External | Markdown | Asset

fun kindName :: "LinkKind \<Rightarrow> string" where
  "kindName Hash = ''hash''"
| "kindName External = ''external''"
| "kindName Markdown = ''markdown''"
| "kindName Asset = ''asset''"

record LinkRewriteResult =
  href :: string
  kind :: LinkKind

definition MARKDOWN_EXTENSIONS :: "string list" where
  "MARKDOWN_EXTENSIONS = [''.md'', ''.markdown'']"

definition isMarkdownPath :: "host \<Rightarrow> string \<Rightarrow> bool" where
  "isMarkdownPath h targetPath =
     (toLowerCase (path_extname (hostPlatform h) targetPath) \<in> set MARKDOWN_EXTENSIONS)"

text \<open>\<^verbatim>\<open>pathPart.replace(/^[/\\]+/u, "")\<close>\<close>

definition stripLeadingSeparators :: "string \<Rightarrow> string" where
  "stripLeadingSeparators p = dropWhile (\<lambda>c. c = CHR ''/'' \<or> c = CHR 0x5C) p"

text \<open>
  \<^verbatim>\<open>workspaceFolder?.uri.fsPath ?? vscode.workspace.workspaceFolders?.[0]?.uri.fsPath\<close>
\<close>

definition workspaceRootOf :: "host \<Rightarrow> string option \<Rightarrow> string option" where
  "workspaceRootOf h folder =
     (case folder of
        Some r \<Rightarrow> Some r
      | None \<Rightarrow> (case workspaceFolders h of [] \<Rightarrow> None | r # _ \<Rightarrow> Some r))"

text \<open>
  \<open>Inl\<close> is an exception thrown to the caller, \<open>Inr None\<close> is \<^verbatim>\<open>undefined\<close>
  (the reference does not resolve), \<open>Inr (Some u)\<close> the resolved address.
\<close>

definition resolveLocalFileUri :: "host \<Rightarrow> string \<Rightarrow> Uri \<Rightarrow> string option \<Rightarrow> exn + Uri option" where
  "resolveLocalFileUri h href0 sourceDocumentUri folder =
     (let parts = splitHref href0; pp = pathPart parts in
      if pp = [] then Inr None
      else if path_isAbsolute (hostPlatform h) pp
        then Inr (Some (Uri_with (Uri_file pp) (query parts) (fragment parts)))
      else if isExternalHref pp
        then (case Uri_parse h href0 of
                Inl e \<Rightarrow> Inl e
              | Inr parsedUri \<Rightarrow>
                  (if scheme parsedUri = ''file'' then Inr (Some parsedUri) else Inr None))
      else if prefix ''/'' pp \<or> prefix [CHR 0x5C] pp
        then (case workspaceRootOf h folder of
                None \<Rightarrow> Inr None
              | Some workspaceRoot \<Rightarrow>
                  (if workspaceRoot = [] then Inr None
                   else Inr (Some (Uri_with
                          (Uri_file (path_join h workspaceRoot (stripLeadingSeparators pp)))
                          (query parts) (fragment parts)))))
      else Inr (Some (Uri_with
             (Uri_file (path_resolve h (path_dirname h (fsPath sourceDocumentUri)) pp))
             (query parts) (fragment parts))))"

definition rewriteLinkHref :: "host \<Rightarrow> RenderContext \<Rightarrow> string \<Rightarrow> exn + LinkRewriteResult" where
  "rewriteLinkHref h ctx href0 =
     (if href0 = [] then Inr \<lparr> href = href0, kind = Asset \<rparr>
      else if prefix ''#'' href0 then Inr \<lparr> href = href0, kind = Hash \<rparr>
      else
        (let parts = splitHref href0 in
         if pathPart parts = [] then Inr \<lparr> href = href0, kind = Asset \<rparr>
         else if isExternalHref (pathPart parts) then Inr \<lparr> href = href0, kind = External \<rparr>
         else if isMarkdownPath h (pathPart parts) then Inr \<lparr> href = href0, kind = Markdown \<rparr>
         else
           (case resolveLocalFileUri h href0 (documentUri ctx) (workspaceFolder ctx) of
              Inl e \<Rightarrow> Inl e
            | Inr None \<Rightarrow> Inr \<lparr> href = href0, kind = Asset \<rparr>
            | Inr (Some resolvedUri) \<Rightarrow>
                Inr \<lparr> href = asWebviewUri ctx resolvedUri, kind = Asset \<rparr>)))"

definition rewriteImageSource :: "host \<Rightarrow> RenderContext \<Rightarrow> string \<Rightarrow> exn + string" where
  "rewriteImageSource h ctx source =
     (if source = [] then Inr source
      else
        (let parts = splitHref source in
         if pathPart parts = [] \<or> isDataUri (pathPart parts) \<or> isExternalHref (pathPart parts)
         then Inr source
         else
           (case resolveLocalFileUri h source (documentUri ctx) (workspaceFolder ctx) of
              Inl e \<Rightarrow> Inl e
            | Inr None \<Rightarrow> Inr source
            | Inr (Some resolvedUri) \<Rightarrow> Inr (asWebviewUri ctx resolvedUri))))"


section \<open>Tokens and the link rule\<close>

text \<open>
  A markdown-it token, as far as the rules read it. \<^verbatim>\<open>attrGet\<close> returns the value of
  the first attribute of that name (\<open>None\<close> for \<^verbatim>\<open>null\<close>); \<^verbatim>\<open>attrSet\<close> overwrites
  that first attribute or appends a new one.
\<close>

record Token =
  attrs :: "(string \<times> string) list"
  info :: string
  content :: string

definition attrGet :: "Token \<Rightarrow> string \<Rightarrow> string option" where
  "attrGet tok name = map_of (attrs tok) name"

fun attrsSet :: "(string \<times> string) list \<Rightarrow> string \<Rightarrow> string \<Rightarrow> (string \<times> string) list" where
  "attrsSet [] name v = [(name, v)]"
| "attrsSet ((n, w) # rest) name v =
     (if n = name then (name, v) # rest else (n, w) # attrsSet rest name v)"

definition attrSet :: "Token \<Rightarrow> string \<Rightarrow> string \<Rightarrow> Token" where
  "attrSet tok name v = tok\<lparr> attrs := attrsSet (attrs tok) name v \<rparr>"

text \<open>
  The rule installed for \<^verbatim>\<open>link_open\<close>, up to the token it hands to the renderer
  (markdown-it has no default rule for \<^verbatim>\<open>link_open\<close>, so \<^verbatim>\<open>self.renderToken\<close>
  writes the tag). \<open>originalHrefOf\<close> is \<^verbatim>\<open>token.attrGet("href") ?? ""\<close>.
\<close>

definition originalHrefOf :: "Token \<Rightarrow> string" where
  "originalHrefOf token = (case attrGet token ''href'' of Some v \<Rightarrow> v | None \<Rightarrow> [])"

definition link_open_token :: "host \<Rightarrow> RenderContext \<Rightarrow> Token \<Rightarrow> exn + Token" where
  "link_open_token h ctx token =
     (let originalHref = originalHrefOf token in
      case rewriteLinkHref h ctx originalHref of
        Inl e \<Rightarrow> Inl e
      | Inr rewrittenLink \<Rightarrow>
          (let t1 = attrSet token ''href'' (href rewrittenLink);
               t2 = attrSet t1 ''data-original-href'' originalHref;
               t3 = attrSet t2 ''data-source-doc'' (documentUriString ctx);
               t4 = attrSet t3 ''data-link-kind'' (kindName (kind rewrittenLink));
               t5 = (if kind rewrittenLink = External
                     then attrSet (attrSet t4 ''target'' ''_blank'') ''rel'' ''noopener noreferrer''
                     else attrSet (attrSet t4 ''target'' ''_self'') ''rel'' ''noopener noreferrer'')
           in Inr t5))"

text \<open>
  markdown-it's \<^verbatim>\<open>renderToken\<close> for an opening inline tag: the tag name and every
  attribute of the token, in order, name and value escaped by markdown-it's own
  \<^verbatim>\<open>escapeHtml\<close> (which replaces the four characters \<^verbatim>\<open>& < > "\<close>).
\<close>

fun md_escapeChar :: "char \<Rightarrow> string" where
  \<open>md_escapeChar c =
     (if c = CHR ''&'' then ''&amp;''
      else if c = CHR ''<'' then ''&lt;''
      else if c = CHR ''>'' then ''&gt;''
      else if c = CHR 0x22 then ''&quot;''
      else [c])\<close>

definition md_escapeHtml :: "string \<Rightarrow> string" where
  "md_escapeHtml s = concat (map md_escapeChar s)"

definition renderAttrs :: "(string \<times> string) list \<Rightarrow> string" where
  \<open>renderAttrs as =
     concat (map (\<lambda>(n, v). '' '' @ md_escapeHtml n @ ''="'' @ md_escapeHtml v @ ''"'') as)\<close>

definition renderToken :: "string \<Rightarrow> Token \<Rightarrow> string" where
  "renderToken tag tok = ''<'' @ tag @ renderAttrs (attrs tok) @ ''>''"

definition link_open_rule :: "host \<Rightarrow> RenderContext \<Rightarrow> Token \<Rightarrow> exn + string" where
  "link_open_rule h ctx token =
     (case link_open_token h ctx token of
        Inl e \<Rightarrow> Inl e
      | Inr t \<Rightarrow> Inr (renderToken ''a'' t))"








section \<open>Fenced code\<close>

definition escapeHtml :: "string \<Rightarrow> string" where
  \<open>escapeHtml v =
     replaceAll (CHR 0x27) ''&#39;''
       (replaceAll (CHR 0x22) ''&quot;''
         (replaceAll CHR ''>'' ''&gt;''
           (replaceAll CHR ''<'' ''&lt;''
             (replaceAll CHR ''&'' ''&amp;'' v))))\<close>

text \<open>The five characters \<open>escapeHtml\<close> replaces, and what it writes for one character.\<close>

definition htmlSpecials :: string where
  \<open>htmlSpecials = [CHR ''&'', CHR ''<'', CHR ''>'', CHR 0x22, CHR 0x27]\<close>

definition escapeHtmlChar :: "char \<Rightarrow> string" where
  \<open>escapeHtmlChar c =
     (if c = CHR ''&'' then ''&amp;''
      else if c = CHR ''<'' then ''&lt;''
      else if c = CHR ''>'' then ''&gt;''
      else if c = CHR 0x22 then ''&quot;''
      else if c = CHR 0x27 then ''&#39;''
      else [c])\<close>

definition getFenceLanguage :: "string \<Rightarrow> string" where
  "getFenceLanguage i = toLowerCase (firstWord (trim i))"

definition renderCodeBlock :: "host \<Rightarrow> string \<Rightarrow> string \<Rightarrow> string" where
  \<open>renderCodeBlock h code language =
     (let normalizedLanguage = toLowerCase (firstWord (trim language)) in
      if normalizedLanguage \<noteq> [] \<and> hljs_getLanguage h normalizedLanguage
      then
        (let highlighted = hljs_highlight h code normalizedLanguage in
         concat [''<pre class="code-block">'',
                 ''<code class="hljs language-'' @ normalizedLanguage @ ''">''
                   @ highlighted @ ''</code>'',
                 ''</pre>''])
      else
        concat [''<pre class="code-block">'',
                ''<code class="hljs">'' @ escapeHtml code @ ''</code>'',
                ''</pre>''])\<close>

text \<open>
  markdown-it's \<^verbatim>\<open>unescapeAll\<close> returns a string with neither a backslash nor an
  ampersand as it is.
\<close>

definition md_unescapeAll :: "host \<Rightarrow> string \<Rightarrow> string" where
  "md_unescapeAll h s =
     (if CHR 0x5C \<in> set s \<or> CHR ''&'' \<in> set s then md_unescape h s else s)"

text \<open>
  markdown-it's default rule for \<^verbatim>\<open>fence\<close>, with the \<^verbatim>\<open>highlight\<close> option the
  renderer sets (\<^verbatim>\<open>renderCodeBlock\<close>) and the default \<^verbatim>\<open>langPrefix\<close>: the language
  name is the first word of the unescaped, trimmed info string; highlighted text that
  begins with \<^verbatim>\<open><pre\<close> is returned with a line feed after it, any other is wrapped
  in \<^verbatim>\<open><pre><code>\<close>, the language added to the token's \<^verbatim>\<open>class\<close>.
\<close>

fun addClass :: "(string \<times> string) list \<Rightarrow> string \<Rightarrow> (string \<times> string) list" where
  "addClass [] c = [(''class'', c)]"
| "addClass ((n, w) # rest) c =
     (if n = ''class'' then (n, w @ '' '' @ c) # rest else (n, w) # addClass rest c)"

definition defaultFenceRule :: "host \<Rightarrow> Token \<Rightarrow> string" where
  \<open>defaultFenceRule h token =
     (let info1 = (if info token \<noteq> [] then trim (md_unescapeAll h (info token)) else []);
          langName = (if info1 \<noteq> [] then firstWord info1 else []);
          highlighted0 = renderCodeBlock h (content token) langName;
          highlighted = (if highlighted0 \<noteq> [] then highlighted0
                         else md_escapeHtml (content token))
      in if prefix ''<pre'' highlighted then highlighted @ [CHR 0x0A]
         else if info1 \<noteq> []
           then ''<pre><code'' @ renderAttrs (addClass (attrs token) (''language-'' @ langName))
                  @ ''>'' @ highlighted @ ''</code></pre>'' @ [CHR 0x0A]
         else ''<pre><code'' @ renderAttrs (attrs token)
                  @ ''>'' @ highlighted @ ''</code></pre>'' @ [CHR 0x0A])\<close>

definition fence_rule :: "host \<Rightarrow> RenderContext \<Rightarrow> Token \<Rightarrow> string" where
  \<open>fence_rule h ctx token =
     (let language = getFenceLanguage (info token) in
      if enableMermaid (settings ctx) \<and> language = ''mermaid''
      then ''<div class="mermaid">'' @ escapeHtml (content token) @ ''</div>''
      else defaultFenceRule h token)\<close>


section \<open>The preview session (preview/PreviewPanel)\<close>

datatype theme = Light | Dark

record RenderPayload =
  html :: string
  theme :: theme
  title :: string

datatype IncomingMessage = Ready | OpenLink string string

text \<open>
  The session's readiness state, and \<open>posted\<close>: the payloads handed to
  \<^verbatim>\<open>panel.webview.postMessage\<close>, oldest first.
\<close>

record Session =
  isReady :: bool
  pendingRenderPayload :: "RenderPayload option"
  posted :: "RenderPayload list"

definition newSession :: Session where
  "newSession = \<lparr> isReady = False, pendingRenderPayload = None, posted = [] \<rparr>"

definition postMessage :: "Session \<Rightarrow> RenderPayload \<Rightarrow> Session" where
  "postMessage s payload = s\<lparr> posted := posted s @ [payload] \<rparr>"

definition postRenderPayload :: "Session \<Rightarrow> RenderPayload \<Rightarrow> Session" where
  "postRenderPayload s payload =
     (if \<not> isReady s then s\<lparr> pendingRenderPayload := Some payload \<rparr>
      else postMessage s payload)"

text \<open>
  \<open>handleMessage s None\<close> is a message that fails \<^verbatim>\<open>isIncomingMessage\<close>.
  \<^verbatim>\<open>handleOpenLink\<close> opens documents and schedules renders; it assigns neither
  \<^verbatim>\<open>isReady\<close> nor \<^verbatim>\<open>pendingRenderPayload\<close> and posts nothing itself.
\<close>

fun handleMessage :: "Session \<Rightarrow> IncomingMessage option \<Rightarrow> Session" where
  "handleMessage s None = s"
| "handleMessage s (Some Ready) =
     (let s1 = s\<lparr> isReady := True \<rparr> in
      case pendingRenderPayload s1 of
        Some pendingPayload \<Rightarrow> postMessage (s1\<lparr> pendingRenderPayload := None \<rparr>) pendingPayload
      | None \<Rightarrow> s1)"
| "handleMessage s (Some (OpenLink rawHref sourceDoc)) = s"

text \<open>
  What happens to a session: a render finishes (\<^verbatim>\<open>renderNow\<close> reaches
  \<^verbatim>\<open>postRenderPayload\<close>), or a message arrives from the sandbox.
\<close>

datatype event = Rendered RenderPayload | Received "IncomingMessage option"

fun step :: "Session \<Rightarrow> event \<Rightarrow> Session" where
  "step s (Rendered payload) = postRenderPayload s payload"
| "step s (Received m) = handleMessage s m"

definition run :: "Session \<Rightarrow> event list \<Rightarrow> Session" where
  "run s es = foldl step s es"

fun renders :: "event list \<Rightarrow> RenderPayload list" where
  "renders [] = []"
| "renders (Rendered p # es) = p # renders es"
| "renders (Received m # es) = renders es"


section \<open>A host and a context for examples\<close>

text \<open>
  The fixture of the repository's renderer tests, on POSIX: the workspace is
  \<^verbatim>\<open>/workspace\<close>, the document \<^verbatim>\<open>/workspace/docs/note.md\<close>, and the webview address of
  a resource is \<^verbatim>\<open>vscode-webview:\<close> followed by its \<^verbatim>\<open>file://\<close> address. The path
  functions are simple stand-ins that agree with Node's on the paths of the examples.
\<close>

definition testHost :: host where
  "testHost =
     \<lparr> hostPlatform = Posix,
       path_join = (\<lambda>a b. a @ ''/'' @ b),
       path_resolve = (\<lambda>dir p. dir @ ''/'' @ (if prefix ''./'' p then drop 2 p else p)),
       path_dirname = (\<lambda>p. rev (tl (dropWhile (\<lambda>c. c \<noteq> CHR ''/'') (rev p)))),
       Uri_parse = (\<lambda>s.
         let p = splitHref s;
             sch = toLowerCase (takeWhile (\<lambda>c. c \<noteq> CHR '':'') (pathPart p))
         in if hasUriScheme (pathPart p)
            then Inr \<lparr> scheme = sch,
                       fsPath = (let r = drop (length sch + 1) (pathPart p)
                                 in if sch = ''file'' \<and> prefix ''//'' r then drop 2 r else r),
                       uriQuery = query p, uriFragment = fragment p \<rparr>
            else Inl UriError),
       workspaceFolders = [''/workspace''],
       hljs_getLanguage = (\<lambda>l. l \<in> set [''javascript'', ''typescript'', ''python'', ''json'']),
       hljs_highlight = (\<lambda>code l. escapeHtml code),
       md_unescape = (\<lambda>s. s) \<rparr>"

definition testSettings :: RendererSettings where
  "testSettings =
     \<lparr> autoUpdateDebounceMs = 0, enableMermaid = True, enableMath = True,
       enableTaskLists = True, enableFootnotes = True \<rparr>"

definition testContext :: RenderContext where
  "testContext =
     \<lparr> documentUri = Uri_file ''/workspace/docs/note.md'',
       documentUriString = ''file:///workspace/docs/note.md'',
       asWebviewUri = (\<lambda>u. ''vscode-webview:file://'' @ fsPath u
          @ (if uriQuery u \<noteq> [] then CHR ''?'' # uriQuery u else [])
          @ (if uriFragment u \<noteq> [] then CHR ''#'' # uriFragment u else [])),
       workspaceFolder = Some ''/workspace'',
       settings = testSettings \<rparr>"

text \<open>
  The fences of the scenarios: \<^verbatim>\<open>```mermaid\<close> holding \<^verbatim>\<open>graph TD;\<close> and \<^verbatim>\<open>A-->B;\<close>,
  and \<^verbatim>\<open>```unknown\<close> holding a script element. The content of a fence token ends with
  a line feed.
\<close>

definition mermaidFence :: Token where
  "mermaidFence =
     \<lparr> attrs = [], info = ''mermaid'',
       content = ''graph TD;'' @ [CHR 0x0A] @ ''A-->B;'' @ [CHR 0x0A] \<rparr>"

text \<open>
  A diagram fence whose info string starts with a no-break space and a tab, spells the
  language in mixed case and goes on after it.
\<close>

definition paddedMermaidFence :: Token where
  "paddedMermaidFence =
     \<lparr> attrs = [], info = [CHR 0xA0, CHR 0x09] @ ''MerMaid dark'',
       content = ''A-->B;'' @ [CHR 0x0A] \<rparr>"

definition xssFence :: Token where
  \<open>xssFence =
     \<lparr> attrs = [], info = ''unknown'',
       content = ''<script>alert('xss')</script>'' @ [CHR 0x0A] \<rparr>\<close>

definition noMermaidContext :: RenderContext where
  "noMermaidContext = testContext\<lparr> settings := testSettings\<lparr> enableMermaid := False \<rparr> \<rparr>"

section \<open>Splitting an href\<close>

lemmas toLowerChar_eval =
  toLowerChar_def upperLetters_def lowerLetters_def upperLatin1_def lowerLatin1_def

lemma indexOf_ge_minus1: "- 1 \<le> indexOf s c"
  by (induction s) (auto simp: Let_def)

lemma indexOf_neg_iff: "indexOf s c < 0 \<longleftrightarrow> c \<notin> set s"
  by (induction s) (auto simp: Let_def)

lemma indexOf_nonneg_iff: "0 \<le> indexOf s c \<longleftrightarrow> c \<in> set s"
  using indexOf_neg_iff [of s c] by auto

lemma takeWhile_absent: "c \<notin> set s \<Longrightarrow> takeWhile (\<lambda>x. x \<noteq> c) s = s"
  by (induction s) auto

lemma indexOf_take: "c \<in> set s \<Longrightarrow> take (nat (indexOf s c)) s = takeWhile (\<lambda>x. x \<noteq> c) s"
proof (induction s)
  case Nil
  then show ?case by simp
next
  case (Cons x xs)
  show ?case
  proof (cases "x = c")
    case True
    then show ?thesis by simp
  next
    case False
    with Cons.prems have mem: "c \<in> set xs" by simp
    then have "\<not> indexOf xs c < 0" by (simp add: indexOf_neg_iff)
    then have "nat (indexOf xs c + 1) = Suc (nat (indexOf xs c))" by simp
    with False mem Cons.IH show ?thesis
      using indexOf_neg_iff [of xs c] by (simp add: Let_def)
  qed
qed

lemma indexOf_drop:
  "c \<in> set s \<Longrightarrow> drop (nat (indexOf s c + 1)) s = tl (dropWhile (\<lambda>x. x \<noteq> c) s)"
proof (induction s)
  case Nil
  then show ?case by simp
next
  case (Cons x xs)
  show ?case
  proof (cases "x = c")
    case True
    then show ?thesis by simp
  next
    case False
    with Cons.prems have mem: "c \<in> set xs" by simp
    then have nn: "\<not> indexOf xs c < 0" by (simp add: indexOf_neg_iff)
    then have "nat (indexOf xs c + 1 + 1) = Suc (nat (indexOf xs c + 1))" by simp
    with False mem Cons.IH nn show ?thesis
      by (simp add: Let_def)
  qed
qed

text \<open>The three parts, read off the text directly.\<close>

definition beforeHash :: "string \<Rightarrow> string" where
  "beforeHash raw = takeWhile (\<lambda>x. x \<noteq> CHR ''#'') raw"

lemma fragment_splitHref:
  "fragment (splitHref raw) =
     (if CHR ''#'' \<in> set raw then tl (dropWhile (\<lambda>x. x \<noteq> CHR ''#'') raw) else [])"
  by (simp add: splitHref_def Let_def sliceFrom_def indexOf_drop indexOf_nonneg_iff)

lemma withoutFragment_eq:
  "(if indexOf raw CHR ''#'' \<ge> 0 then sliceTo raw (indexOf raw CHR ''#'') else raw)
     = beforeHash raw"
proof (cases "CHR ''#'' \<in> set raw")
  case True
  then show ?thesis
    by (simp add: sliceTo_def indexOf_take beforeHash_def indexOf_nonneg_iff)
next
  case False
  then show ?thesis
    by (simp add: beforeHash_def indexOf_nonneg_iff takeWhile_absent)
qed

lemma query_splitHref:
  "query (splitHref raw) =
     (if CHR ''?'' \<in> set (beforeHash raw)
      then tl (dropWhile (\<lambda>x. x \<noteq> CHR ''?'') (beforeHash raw)) else [])"
proof -
  have "query (splitHref raw) =
      (let w = beforeHash raw; q = indexOf w CHR ''?''
       in if q \<ge> 0 then sliceFrom w (q + 1) else [])"
    unfolding splitHref_def Let_def withoutFragment_eq by simp
  then show ?thesis
    by (simp add: Let_def sliceFrom_def indexOf_drop indexOf_nonneg_iff)
qed

lemma pathPart_splitHref:
  "pathPart (splitHref raw) = takeWhile (\<lambda>x. x \<noteq> CHR ''?'') (beforeHash raw)"
proof -
  have eq: "pathPart (splitHref raw) =
      (let w = beforeHash raw; q = indexOf w CHR ''?''
       in if q \<ge> 0 then sliceTo w q else w)"
    unfolding splitHref_def Let_def withoutFragment_eq by simp
  show ?thesis
  proof (cases "CHR ''?'' \<in> set (beforeHash raw)")
    case True
    then show ?thesis
      by (simp add: eq Let_def sliceTo_def indexOf_take indexOf_nonneg_iff)
  next
    case False
    then show ?thesis
      by (simp add: eq Let_def indexOf_nonneg_iff takeWhile_absent)
  qed
qed

lemma pathPart_takeWhile:
  "pathPart (splitHref raw) = takeWhile (\<lambda>x. x \<noteq> CHR ''#'' \<and> x \<noteq> CHR ''?'') raw"
  unfolding pathPart_splitHref beforeHash_def
  by (induction raw) auto


lemma raw_beforeHash:
  "raw = beforeHash raw
     @ (if CHR ''#'' \<in> set raw then CHR ''#'' # fragment (splitHref raw) else [])"
proof (cases "CHR ''#'' \<in> set raw")
  case True
  then have "dropWhile (\<lambda>x. x \<noteq> CHR ''#'') raw \<noteq> []" by simp
  moreover have "hd (dropWhile (\<lambda>x. x \<noteq> CHR ''#'') raw) = CHR ''#''"
    using True hd_dropWhile [of "\<lambda>x. x \<noteq> CHR ''#''" raw] by auto
  ultimately have "dropWhile (\<lambda>x. x \<noteq> CHR ''#'') raw
      = CHR ''#'' # tl (dropWhile (\<lambda>x. x \<noteq> CHR ''#'') raw)"
    by (cases "dropWhile (\<lambda>x. x \<noteq> CHR ''#'') raw") auto
  then have "raw = takeWhile (\<lambda>x. x \<noteq> CHR ''#'') raw
      @ CHR ''#'' # tl (dropWhile (\<lambda>x. x \<noteq> CHR ''#'') raw)"
    using takeWhile_dropWhile_id [of "\<lambda>x. x \<noteq> CHR ''#''" raw] by simp
  with True show ?thesis by (simp add: fragment_splitHref beforeHash_def)
next
  case False
  then show ?thesis by (simp add: beforeHash_def takeWhile_absent)
qed

lemma beforeHash_pathPart:
  "beforeHash raw = pathPart (splitHref raw)
     @ (if CHR ''?'' \<in> set (beforeHash raw) then CHR ''?'' # query (splitHref raw) else [])"
proof (cases "CHR ''?'' \<in> set (beforeHash raw)")
  case True
  let ?w = "beforeHash raw"
  from True have "dropWhile (\<lambda>x. x \<noteq> CHR ''?'') ?w \<noteq> []" by simp
  moreover have "hd (dropWhile (\<lambda>x. x \<noteq> CHR ''?'') ?w) = CHR ''?''"
    using True hd_dropWhile [of "\<lambda>x. x \<noteq> CHR ''?''" ?w] by auto
  ultimately have "dropWhile (\<lambda>x. x \<noteq> CHR ''?'') ?w
      = CHR ''?'' # tl (dropWhile (\<lambda>x. x \<noteq> CHR ''?'') ?w)"
    by (cases "dropWhile (\<lambda>x. x \<noteq> CHR ''?'') ?w") auto
  then have "?w = takeWhile (\<lambda>x. x \<noteq> CHR ''?'') ?w
      @ CHR ''?'' # tl (dropWhile (\<lambda>x. x \<noteq> CHR ''?'') ?w)"
    using takeWhile_dropWhile_id [of "\<lambda>x. x \<noteq> CHR ''?''" ?w] by simp
  with True show ?thesis by (simp add: query_splitHref pathPart_splitHref)
next
  case False
  then show ?thesis by (simp add: pathPart_splitHref takeWhile_absent)
qed

lemma fragment_empty_without_hash: "CHR ''#'' \<notin> set raw \<Longrightarrow> fragment (splitHref raw) = []"
  by (simp add: fragment_splitHref)

lemma query_empty_without_mark:
  "CHR ''?'' \<notin> set (beforeHash raw) \<Longrightarrow> query (splitHref raw) = []"
  by (simp add: query_splitHref)

text \<open>
  C3, as amended. Splitting an href and reassembling
  \<open>pathPart + ('?'+query if query is non-empty) + ('#'+fragment if fragment is non-empty)\<close>
  gives the href back exactly when no delimiter was dropped: the href has no \<open>#\<close> or its
  fragment is non-empty, and the text before the first \<open>#\<close> has no \<open>?\<close> or its query is
  non-empty. An href such as \<open>a#\<close> or \<open>a?\<close> comes back without its delimiter.
\<close>

theorem splitHref_reassemble_iff:
  "reassemble (splitHref raw) = raw \<longleftrightarrow>
     (CHR ''#'' \<notin> set raw \<or> fragment (splitHref raw) \<noteq> [])
     \<and> (CHR ''?'' \<notin> set (beforeHash raw) \<or> query (splitHref raw) \<noteq> [])"
proof -
  define pp where "pp = pathPart (splitHref raw)"
  define q where "q = query (splitHref raw)"
  define f where "f = fragment (splitHref raw)"
  define Q where "Q = (if CHR ''?'' \<in> set (beforeHash raw) then CHR ''?'' # q else [])"
  define F where "F = (if CHR ''#'' \<in> set raw then CHR ''#'' # f else [])"
  have a: "raw = beforeHash raw @ F"
    unfolding F_def f_def by (rule raw_beforeHash)
  have b: "beforeHash raw = pp @ Q"
    unfolding pp_def Q_def q_def by (rule beforeHash_pathPart)
  have raw_eq: "raw = pp @ Q @ F"
    by (metis a b append_assoc)
  have re_eq: "reassemble (splitHref raw)
      = pp @ (if q \<noteq> [] then CHR ''?'' # q else []) @ (if f \<noteq> [] then CHR ''#'' # f else [])"
    by (simp add: reassemble_def pp_def q_def f_def)
  have q0: "CHR ''?'' \<notin> set (beforeHash raw) \<Longrightarrow> q = []"
    unfolding q_def by (rule query_empty_without_mark)
  have f0: "CHR ''#'' \<notin> set raw \<Longrightarrow> f = []"
    unfolding f_def by (rule fragment_empty_without_hash)
  have "reassemble (splitHref raw) = raw \<longleftrightarrow>
      (if q \<noteq> [] then CHR ''?'' # q else []) @ (if f \<noteq> [] then CHR ''#'' # f else []) = Q @ F"
    by (subst (2) raw_eq) (simp add: re_eq)
  also have "\<dots> \<longleftrightarrow> (CHR ''#'' \<notin> set raw \<or> f \<noteq> []) \<and> (CHR ''?'' \<notin> set (beforeHash raw) \<or> q \<noteq> [])"
    using q0 f0 unfolding Q_def F_def by auto
  finally show ?thesis unfolding q_def f_def .
qed

theorem splitHref_reassemble_witness:
  "reassemble (splitHref ''docs/spec.pdf?download=1#top'') = ''docs/spec.pdf?download=1#top''"
proof -
  have "fragment (splitHref ''docs/spec.pdf?download=1#top'') \<noteq> []"
    by (simp add: fragment_splitHref)
  moreover have "query (splitHref ''docs/spec.pdf?download=1#top'') \<noteq> []"
    by (simp add: query_splitHref beforeHash_def)
  ultimately show ?thesis
    using splitHref_reassemble_iff [of "''docs/spec.pdf?download=1#top''"] by blast
qed

text \<open>
  C3, as stated, fails: the href \<open>notes.md#\<close> (an empty fragment) splits into the path
  part \<open>notes.md\<close> with an empty query and an empty fragment, and reassembles to
  \<open>notes.md\<close>.
\<close>

theorem splitHref_reassemble_counterexample:
  "reassemble (splitHref ''notes.md#'') \<noteq> ''notes.md#''"
  by (simp add: reassemble_def fragment_splitHref query_splitHref pathPart_splitHref
      beforeHash_def)


section \<open>Classification of an href\<close>

lemma isLetter_cases:
  "isLetter c \<Longrightarrow> c \<noteq> CHR ''#'' \<and> c \<noteq> CHR ''?'' \<and> c \<noteq> CHR '':'' \<and> c \<noteq> CHR ''/''
     \<and> c \<noteq> CHR 0x5C"
  by (auto simp: isLetter_def lowerLetters_def upperLetters_def)

lemma colon_not_schemeChar: "\<not> isSchemeChar CHR '':''"
  by (simp add: isSchemeChar_def isLetter_def isDigit_def lowerLetters_def upperLetters_def
      digits_def)

lemma pathPart_Nil_iff:
  "pathPart (splitHref raw) = [] \<longleftrightarrow> raw = [] \<or> prefix ''#'' raw \<or> prefix ''?'' raw"
  unfolding pathPart_takeWhile by (cases raw) auto

lemma pathPart_Cons:
  "c \<noteq> CHR ''#'' \<Longrightarrow> c \<noteq> CHR ''?'' \<Longrightarrow>
     pathPart (splitHref (c # rest)) = c # pathPart (splitHref rest)"
  unfolding pathPart_takeWhile by simp

text \<open>The resolver throws only through \<^verbatim>\<open>Uri.parse\<close>, which it calls only on an external path part.\<close>

lemma resolveLocalFileUri_not_external:
  "\<not> isExternalHref (pathPart (splitHref raw)) \<Longrightarrow>
     \<exists>r. resolveLocalFileUri h raw doc folder = Inr r"
  by (simp add: resolveLocalFileUri_def Let_def split: option.splits)

lemma rewriteLinkHref_total: "\<exists>r. rewriteLinkHref h ctx raw = Inr r"
proof (cases "isExternalHref (pathPart (splitHref raw))")
  case True
  then show ?thesis by (simp add: rewriteLinkHref_def Let_def)
next
  case False
  then obtain r where "resolveLocalFileUri h raw (documentUri ctx) (workspaceFolder ctx) = Inr r"
    using resolveLocalFileUri_not_external by blast
  with False show ?thesis
    by (simp add: rewriteLinkHref_def Let_def split: option.splits)
qed

lemma rewriteLinkHref_external:
  assumes "isExternalHref (pathPart (splitHref raw))"
  shows "rewriteLinkHref h ctx raw = Inr \<lparr> href = raw, kind = External \<rparr>"
proof -
  have ne: "pathPart (splitHref raw) \<noteq> []"
    using assms by (auto simp: isExternalHref_def)
  then have "raw \<noteq> []" "\<not> prefix ''#'' raw"
    by (auto simp: pathPart_Nil_iff)
  with ne assms show ?thesis
    by (simp add: rewriteLinkHref_def Let_def)
qed

lemma rewriteLinkHref_not_external:
  assumes "\<not> isExternalHref (pathPart (splitHref raw))"
  shows "\<exists>r. rewriteLinkHref h ctx raw = Inr r \<and> kind r \<noteq> External"
proof -
  obtain u where "resolveLocalFileUri h raw (documentUri ctx) (workspaceFolder ctx) = Inr u"
    using assms resolveLocalFileUri_not_external by blast
  with assms show ?thesis
    by (simp add: rewriteLinkHref_def Let_def split: option.splits)
qed

lemma windowsPath_pathPart:
  assumes "isLikelyWindowsAbsolutePath raw"
  shows "isLikelyWindowsAbsolutePath (pathPart (splitHref raw))"
proof -
  obtain c d e rest where raw: "raw = c # d # e # rest"
    using assms by (cases raw rule: isLikelyWindowsAbsolutePath.cases) auto
  with assms have l: "isLetter c" and d: "d = CHR '':''" and e: "e = CHR ''/'' \<or> e = CHR 0x5C"
    by auto
  from l have "c \<noteq> CHR ''#''" "c \<noteq> CHR ''?''" using isLetter_cases by blast+
  with d e have "pathPart (splitHref raw) = c # d # e # pathPart (splitHref rest)"
    unfolding raw by (auto simp: pathPart_Cons)
  with l d e show ?thesis by auto
qed

text \<open>
  C2. An href whose path part matches the URI-scheme prefix and is not a Windows drive
  path is rewritten to itself with kind \<open>external\<close>; an href that is a Windows drive
  path (a letter, a colon, then \<open>/\<close> or \<open>\\<close>) is rewritten without an exception to a
  kind other than \<open>external\<close>.
\<close>

theorem scheme_external_drive_not:
  "(hasUriScheme (pathPart (splitHref raw))
      \<and> \<not> isLikelyWindowsAbsolutePath (pathPart (splitHref raw))
      \<longrightarrow> rewriteLinkHref h ctx raw = Inr \<lparr> href = raw, kind = External \<rparr>)
   \<and> (isLikelyWindowsAbsolutePath raw
      \<longrightarrow> (\<exists>r. rewriteLinkHref h ctx raw = Inr r \<and> kind r \<noteq> External))"
proof (intro conjI impI)
  assume "hasUriScheme (pathPart (splitHref raw))
      \<and> \<not> isLikelyWindowsAbsolutePath (pathPart (splitHref raw))"
  then have "isExternalHref (pathPart (splitHref raw))"
    by (simp add: isExternalHref_def)
  then show "rewriteLinkHref h ctx raw = Inr \<lparr> href = raw, kind = External \<rparr>"
    by (rule rewriteLinkHref_external)
next
  assume "isLikelyWindowsAbsolutePath raw"
  then have "\<not> isExternalHref (pathPart (splitHref raw))"
    using windowsPath_pathPart by (simp add: isExternalHref_def)
  then show "\<exists>r. rewriteLinkHref h ctx raw = Inr r \<and> kind r \<noteq> External"
    by (rule rewriteLinkHref_not_external)
qed

theorem scheme_external_drive_not_witness:
  "rewriteLinkHref testHost testContext ''https://example.com/docs?q=1#section''
     = Inr \<lparr> href = ''https://example.com/docs?q=1#section'', kind = External \<rparr>
   \<and> (\<exists>r. rewriteLinkHref testHost testContext ''C:/docs/guide.txt'' = Inr r
          \<and> kind r \<noteq> External)"
proof -
  have p: "pathPart (splitHref ''https://example.com/docs?q=1#section'')
      = ''https://example.com/docs''"
    by (simp add: pathPart_takeWhile)
  have s: "hasUriScheme ''https://example.com/docs''"
    by (simp add: isSchemeChar_def isLetter_def isDigit_def lowerLetters_def
        upperLetters_def digits_def)
  have w: "\<not> isLikelyWindowsAbsolutePath ''https://example.com/docs''"
    by simp
  have d: "isLikelyWindowsAbsolutePath ''C:/docs/guide.txt''"
    by (simp add: isLetter_def lowerLetters_def upperLetters_def)
  show ?thesis
    using scheme_external_drive_not
      [of "''https://example.com/docs?q=1#section''" testHost testContext]
      scheme_external_drive_not [of "''C:/docs/guide.txt''" testHost testContext]
      p s w d
    by simp
qed



section \<open>Attributes of the anchor\<close>




lemma kindName_external: "kindName k = ''external'' \<longleftrightarrow> k = External"
  by (cases k) simp_all












section \<open>Hrefs with the scheme file\<close>

lemma lowerLetters_not_Latin1: "y \<in> set lowerLetters \<Longrightarrow> y \<notin> set lowerLatin1"
  by (auto simp: lowerLetters_def lowerLatin1_def)

lemma toLowerChar_lower:
  assumes "toLowerChar x = y" and "y \<in> set lowerLetters"
  shows "isLetter x"
proof (cases "map_of (zip upperLetters lowerLetters) x")
  case (Some l)
  then have "x \<in> set upperLetters"
    by (meson map_of_SomeD set_zip_leftD)
  then show ?thesis by (simp add: isLetter_def)
next
  case None
  note first = None
  show ?thesis
  proof (cases "map_of (zip upperLatin1 lowerLatin1) x")
    case None
    with first assms show ?thesis by (simp add: toLowerChar_def isLetter_def)
  next
    case (Some l)
    then have "l \<in> set lowerLatin1"
      by (meson map_of_SomeD set_zip_rightD)
    moreover have "l = y"
      using first Some assms(1) by (simp add: toLowerChar_def)
    ultimately show ?thesis
      using assms(2) lowerLetters_not_Latin1 by blast
  qed
qed

lemma toLowerChar_other:
  assumes "toLowerChar x = y" and "y \<notin> set lowerLetters" and "y \<notin> set lowerLatin1"
  shows "x = y"
proof (cases "map_of (zip upperLetters lowerLetters) x")
  case (Some l)
  then have "l \<in> set lowerLetters"
    by (meson map_of_SomeD set_zip_rightD)
  with Some assms show ?thesis by (simp add: toLowerChar_def)
next
  case None
  note first = None
  show ?thesis
  proof (cases "map_of (zip upperLatin1 lowerLatin1) x")
    case None
    with first assms show ?thesis by (simp add: toLowerChar_def)
  next
    case (Some l)
    then have "l \<in> set lowerLatin1"
      by (meson map_of_SomeD set_zip_rightD)
    with first Some assms show ?thesis by (simp add: toLowerChar_def)
  qed
qed

lemma file_prefix_chars:
  assumes "toLowerCase (take 5 p) = ''file:''"
  shows "\<exists>a b c d rest. p = a # b # c # d # CHR '':'' # rest
           \<and> isLetter a \<and> isLetter b \<and> isLetter c \<and> isLetter d"
proof -
  have "length (toLowerCase (take 5 p)) = length (take 5 p)"
    by (simp add: toLowerCase_def)
  with assms have len: "length (take 5 p) = 5"
    by simp
  then obtain a b c d e rest where p: "p = a # b # c # d # e # rest"
    by (cases p; simp; cases "tl p"; simp; cases "tl (tl p)"; simp;
        cases "tl (tl (tl p))"; simp; cases "tl (tl (tl (tl p)))"; simp)
  with assms have lo: "toLowerChar a = CHR ''f''" "toLowerChar b = CHR ''i''"
    "toLowerChar c = CHR ''l''" "toLowerChar d = CHR ''e''" "toLowerChar e = CHR '':''"
    by (simp_all add: toLowerCase_def)
  have "isLetter a" "isLetter b" "isLetter c" "isLetter d"
    using lo(1-4) by (auto intro!: toLowerChar_lower simp: lowerLetters_def)
  moreover have "e = CHR '':''"
    using lo(5) by (rule toLowerChar_other) (simp_all add: lowerLetters_def lowerLatin1_def)
  ultimately show ?thesis using p by blast
qed

text \<open>
  An href whose path part starts with \<open>file:\<close>, in any letter case, is classified
  external and left as authored, whatever the host and the context.
\<close>

lemma file_scheme_external:
  assumes "toLowerCase (take 5 (pathPart (splitHref raw))) = ''file:''"
  shows "rewriteLinkHref h ctx raw = Inr \<lparr> href = raw, kind = External \<rparr>"
proof -
  obtain a b c d rest where p: "pathPart (splitHref raw) = a # b # c # d # CHR '':'' # rest"
    and l: "isLetter a" "isLetter b" "isLetter c" "isLetter d"
    using file_prefix_chars [OF assms] by blast
  from l(2) have "b \<noteq> CHR '':''" using isLetter_cases by blast
  then have nw: "\<not> isLikelyWindowsAbsolutePath (pathPart (splitHref raw))"
    unfolding p by simp
  have "hasUriScheme (pathPart (splitHref raw))"
    unfolding p using l colon_not_schemeChar by (simp add: isSchemeChar_def)
  with nw have "isExternalHref (pathPart (splitHref raw))"
    by (simp add: isExternalHref_def)
  then show ?thesis by (rule rewriteLinkHref_external)
qed



section \<open>The extension of a path\<close>

text \<open>
  Once the scan has seen a dot and a character before it, the places of the extension
  stay as they are.
\<close>

lemma extname_loop_keeps:
  assumes "startDot st \<noteq> - 1" and "endIdx st \<noteq> - 1" and "preDotState st \<noteq> 0"
  shows "startDot (extname_loop pf path start n st) = startDot st
         \<and> endIdx (extname_loop pf path start n st) = endIdx st
         \<and> preDotState (extname_loop pf path start n st) \<noteq> 0"
  using assms
proof (induction n arbitrary: st)
  case 0
  then show ?case by simp
next
  case (Suc i)
  show ?case
  proof (cases "Suc i \<le> start")
    case True
    with Suc.prems show ?thesis by simp
  next
    case False
    note run = False
    show ?thesis
    proof (cases "isPathSeparator pf (path ! i)")
      case True
      with run Suc.prems Suc.IH [of st] show ?thesis by simp
    next
      case False
      let ?st2 = "if path ! i = CHR ''.''
          then (if preDotState st \<noteq> 1 then st\<lparr>preDotState := 1\<rparr> else st)
          else st\<lparr>preDotState := - 1\<rparr>"
      have step: "extname_loop pf path start (Suc i) st = extname_loop pf path start i ?st2"
        using run False Suc.prems by (simp add: Let_def)
      have "startDot ?st2 \<noteq> - 1" "endIdx ?st2 \<noteq> - 1" "preDotState ?st2 \<noteq> 0"
        using Suc.prems by auto
      from Suc.IH [OF this] have "startDot (extname_loop pf path start i ?st2) = startDot ?st2
          \<and> endIdx (extname_loop pf path start i ?st2) = endIdx ?st2
          \<and> preDotState (extname_loop pf path start i ?st2) \<noteq> 0" .
      then show ?thesis unfolding step by auto
    qed
  qed
qed

text \<open>
  A path that ends in a character other than a separator followed by \<open>.md\<close> has the
  extension \<open>.md\<close> (on Windows, when that character is not within a drive prefix).
\<close>

lemma extname_md:
  assumes "\<not> isPathSeparator pf x"
    and "extname_start pf (xs @ x # ''.md'') \<le> length xs"
  shows "path_extname pf (xs @ x # ''.md'') = ''.md''"
proof -
  let ?p = "xs @ x # ''.md''"
  let ?n = "length xs"
  let ?start = "extname_start pf ?p"
  let ?st0 = "\<lparr>startDot = - 1, startPart = int ?start, endIdx = - 1,
      matchedSlash = True, preDotState = 0\<rparr>"
  let ?st4 = "\<lparr>startDot = 1 + int ?n, startPart = int ?start, endIdx = 4 + int ?n,
      matchedSlash = False, preDotState = (if x = CHR ''.'' then 1 else - 1)\<rparr>"
  have len: "length ?p = Suc (Suc (Suc (Suc ?n)))" by simp
  have nth: "?p ! ?n = x" "?p ! Suc ?n = CHR ''.''" "?p ! Suc (Suc ?n) = CHR ''m''"
    "?p ! Suc (Suc (Suc ?n)) = CHR ''d''"
    by (simp_all add: nth_append)
  have sep: "\<not> isPathSeparator pf CHR ''.''" "\<not> isPathSeparator pf CHR ''m''"
    "\<not> isPathSeparator pf CHR ''d''"
    by (simp_all add: isPathSeparator_def)
  have "extname_loop pf ?p ?start (length ?p) ?st0 = extname_loop pf ?p ?start ?n ?st4"
    unfolding len using assms nth sep by (simp add: Let_def)
  moreover have "startDot (extname_loop pf ?p ?start ?n ?st4) = startDot ?st4
      \<and> endIdx (extname_loop pf ?p ?start ?n ?st4) = endIdx ?st4
      \<and> preDotState (extname_loop pf ?p ?start ?n ?st4) \<noteq> 0"
    by (rule extname_loop_keeps) simp_all
  ultimately have "startDot (extname_loop pf ?p ?start (length ?p) ?st0) = 1 + int ?n"
    and "endIdx (extname_loop pf ?p ?start (length ?p) ?st0) = 4 + int ?n"
    and "preDotState (extname_loop pf ?p ?start (length ?p) ?st0) \<noteq> 0"
    by simp_all
  then have "path_extname pf ?p
      = take (nat (4 + int ?n) - nat (1 + int ?n)) (drop (nat (1 + int ?n)) ?p)"
    unfolding path_extname_def Let_def by simp
  also have "nat (4 + int ?n) - nat (1 + int ?n) = 3" by simp
  also have "nat (1 + int ?n) = Suc ?n" by simp
  finally show ?thesis by simp
qed

lemma extname_start_Posix: "extname_start Posix p = 0"
  by (simp add: extname_start_def split: list.splits)

text \<open>
  On POSIX, an href whose path part ends in a character other than \<open>/\<close> followed by
  \<open>.md\<close>, and is not external, is classified markdown and left as authored.
\<close>

theorem posix_md_link:
  assumes "hostPlatform h = Posix"
    and "pathPart (splitHref raw) = xs @ x # ''.md''" and "x \<noteq> CHR ''/''"
    and "\<not> isExternalHref (pathPart (splitHref raw))"
  shows "rewriteLinkHref h ctx raw = Inr \<lparr> href = raw, kind = Markdown \<rparr>"
proof -
  have "path_extname Posix (xs @ x # ''.md'') = ''.md''"
    using assms(3) by (intro extname_md) (simp_all add: isPathSeparator_def extname_start_Posix)
  then have m: "isMarkdownPath h (pathPart (splitHref raw))"
    by (simp add: isMarkdownPath_def assms(1,2) MARKDOWN_EXTENSIONS_def toLowerCase_def
        toLowerChar_eval upperLetters_def lowerLetters_def)
  have ne: "pathPart (splitHref raw) \<noteq> []"
    by (simp add: assms(2))
  then have "raw \<noteq> []" "\<not> prefix ''#'' raw"
    by (auto simp: pathPart_Nil_iff)
  with ne m assms(4) show ?thesis
    by (simp add: rewriteLinkHref_def Let_def)
qed


theorem posix_md_link_witness:
  "rewriteLinkHref testHost testContext ''../notes/read.me.md?plain=1#top''
     = Inr \<lparr> href = ''../notes/read.me.md?plain=1#top'', kind = Markdown \<rparr>"
proof -
  have p: "pathPart (splitHref ''../notes/read.me.md?plain=1#top'')
      = ''../notes/read.m'' @ CHR ''e'' # ''.md''"
    by (simp add: pathPart_takeWhile)
  have e: "\<not> isExternalHref (pathPart (splitHref ''../notes/read.me.md?plain=1#top''))"
    unfolding p by (simp add: isExternalHref_def isLetter_def lowerLetters_def upperLetters_def)
  have h: "hostPlatform testHost = Posix"
    by (simp add: testHost_def)
  show ?thesis
    using posix_md_link [OF h p _ e, of testContext] by simp
qed

section \<open>Links to Markdown documents\<close>



lemma guide_extname: "path_extname Posix ''./guide.md'' = ''.md''"
  by code_simp


text \<open>The anchor of the scenario \<^verbatim>\<open>[guide](./guide.md#intro)\<close>, as written to the page.\<close>

lemma guide_anchor_html:
  \<open>link_open_rule testHost testContext
     \<lparr> attrs = [(''href'', ''./guide.md#intro'')], info = [], content = [] \<rparr>
   = Inr (''<a href="./guide.md#intro" data-original-href="./guide.md#intro"''
          @ '' data-source-doc="file:///workspace/docs/note.md" data-link-kind="markdown"''
          @ '' target="_self" rel="noopener noreferrer">'')\<close>
proof -
  have p: "pathPart (splitHref ''./guide.md#intro'') = ''./guide.md''"
    by (simp add: pathPart_takeWhile)
  have r: "rewriteLinkHref testHost testContext ''./guide.md#intro''
      = Inr \<lparr> href = ''./guide.md#intro'', kind = Markdown \<rparr>"
    by (simp add: rewriteLinkHref_def Let_def p isExternalHref_def isLetter_def lowerLetters_def
        upperLetters_def isMarkdownPath_def testHost_def guide_extname MARKDOWN_EXTENSIONS_def
        toLowerCase_def toLowerChar_eval)
  have d: "documentUriString testContext = ''file:///workspace/docs/note.md''"
    by (simp add: testContext_def)
  show ?thesis
    by (simp add: link_open_rule_def link_open_token_def Let_def originalHrefOf_def attrGet_def
        r d attrSet_def renderToken_def renderAttrs_def md_escapeHtml_def)
qed


section \<open>Resolving a path that starts with a separator\<close>

lemma leading_slash_absolute: "path_isAbsolute pf (CHR ''/'' # p)"
  by (cases pf) (simp_all add: isPathSeparator_def)

lemma resolve_leading_slash:
  "resolveLocalFileUri h (CHR ''/'' # rest) doc folder
     = Inr (Some (Uri_with (Uri_file (pathPart (splitHref (CHR ''/'' # rest))))
         (query (splitHref (CHR ''/'' # rest))) (fragment (splitHref (CHR ''/'' # rest)))))"
proof -
  have "pathPart (splitHref (CHR ''/'' # rest)) = CHR ''/'' # pathPart (splitHref rest)"
    by (simp add: pathPart_Cons)
  then show ?thesis
    by (simp add: resolveLocalFileUri_def Let_def leading_slash_absolute)
qed

text \<open>
  C4, at \<open>/assets/logo.png\<close> with the tests' fixture (workspace root \<open>/workspace\<close>):
  the resolver takes the path as absolute and returns \<open>/assets/logo.png\<close> itself, not
  the join of the workspace root with \<open>assets/logo.png\<close>, and the link rewriter emits
  the webview address of that file; with no workspace root known, the resolution still
  succeeds.
\<close>

theorem leading_slash_not_workspace_relative:
  "resolveLocalFileUri testHost ''/assets/logo.png''
       (documentUri testContext) (workspaceFolder testContext)
     = Inr (Some (Uri_file ''/assets/logo.png''))
   \<and> path_join testHost ''/workspace'' (stripLeadingSeparators ''/assets/logo.png'')
     = ''/workspace/assets/logo.png''
   \<and> rewriteLinkHref testHost testContext ''/assets/logo.png''
     = Inr \<lparr> href = ''vscode-webview:file:///assets/logo.png'', kind = Asset \<rparr>
   \<and> resolveLocalFileUri (testHost\<lparr> workspaceFolders := [] \<rparr>) ''/assets/logo.png''
       (documentUri testContext) None
     = Inr (Some (Uri_file ''/assets/logo.png''))"
proof -
  have p: "pathPart (splitHref ''/assets/logo.png'') = ''/assets/logo.png''"
    and q: "query (splitHref ''/assets/logo.png'') = []"
    and f: "fragment (splitHref ''/assets/logo.png'') = []"
    by (simp_all add: pathPart_takeWhile query_splitHref fragment_splitHref beforeHash_def)
  have r: "resolveLocalFileUri h ''/assets/logo.png'' doc folder
      = Inr (Some (Uri_file ''/assets/logo.png''))" for h doc folder
    by (simp add: resolve_leading_slash p q f Uri_with_def Uri_file_def)
  have e: "path_extname Posix ''/assets/logo.png'' = ''.png''"
    by code_simp
  have j: "path_join testHost ''/workspace'' (stripLeadingSeparators ''/assets/logo.png'')
      = ''/workspace/assets/logo.png''"
    by (simp add: testHost_def stripLeadingSeparators_def)
  have w: "rewriteLinkHref testHost testContext ''/assets/logo.png''
      = Inr \<lparr> href = ''vscode-webview:file:///assets/logo.png'', kind = Asset \<rparr>"
    by (simp add: rewriteLinkHref_def Let_def p r isExternalHref_def isMarkdownPath_def
        MARKDOWN_EXTENSIONS_def e toLowerCase_def toLowerChar_eval upperLetters_def
        lowerLetters_def testHost_def testContext_def Uri_file_def)
  show ?thesis using r j w by simp
qed


section \<open>Failing open\<close>

lemma rewriteImageSource_total: "\<exists>s. rewriteImageSource h ctx raw = Inr s"
proof (cases "isExternalHref (pathPart (splitHref raw))")
  case True
  then show ?thesis by (simp add: rewriteImageSource_def Let_def)
next
  case False
  then obtain r where "resolveLocalFileUri h raw (documentUri ctx) (workspaceFolder ctx) = Inr r"
    using resolveLocalFileUri_not_external by blast
  with False show ?thesis
    by (simp add: rewriteImageSource_def Let_def split: option.splits)
qed

text \<open>
  The link rewriter and the image rewriter never throw, and an href or source that the
  resolver does not resolve comes back as authored; the link rewriter gives it the kind
  asset whenever it is not a hash, an external or a markdown href.
\<close>

theorem rewriters_fail_open:
  "(\<exists>r. rewriteLinkHref h ctx raw = Inr r)
   \<and> (\<exists>s. rewriteImageSource h ctx raw = Inr s)
   \<and> (resolveLocalFileUri h raw (documentUri ctx) (workspaceFolder ctx) = Inr None \<longrightarrow>
        (\<exists>k. rewriteLinkHref h ctx raw = Inr \<lparr> href = raw, kind = k \<rparr>
            \<and> (k = Asset \<or> prefix ''#'' raw \<or> isExternalHref (pathPart (splitHref raw))
               \<or> isMarkdownPath h (pathPart (splitHref raw))))
        \<and> rewriteImageSource h ctx raw = Inr raw)"
proof (intro conjI impI)
  show "\<exists>r. rewriteLinkHref h ctx raw = Inr r"
    by (rule rewriteLinkHref_total)
  show "\<exists>s. rewriteImageSource h ctx raw = Inr s"
    by (rule rewriteImageSource_total)
next
  assume n: "resolveLocalFileUri h raw (documentUri ctx) (workspaceFolder ctx) = Inr None"
  show "\<exists>k. rewriteLinkHref h ctx raw = Inr \<lparr> href = raw, kind = k \<rparr>
      \<and> (k = Asset \<or> prefix ''#'' raw \<or> isExternalHref (pathPart (splitHref raw))
         \<or> isMarkdownPath h (pathPart (splitHref raw)))"
    using n by (simp add: rewriteLinkHref_def Let_def)
  show "rewriteImageSource h ctx raw = Inr raw"
    using n by (simp add: rewriteImageSource_def Let_def)
qed

text \<open>
  On POSIX a path part that starts with a backslash is not absolute and has no scheme, so
  it reaches the workspace branch: the leading separators are stripped and the rest is
  joined with the workspace root (the folder of the document when there is one, else
  the first workspace folder); the resolution fails exactly when there is no root, or
  the root's path is empty.
\<close>

theorem posix_backslash_workspace_relative:
  assumes "hostPlatform h = Posix" and "pathPart (splitHref raw) = CHR 0x5C # rest"
  shows "resolveLocalFileUri h raw doc folder =
     (case workspaceRootOf h folder of
        None \<Rightarrow> Inr None
      | Some root \<Rightarrow>
          (if root = [] then Inr None
           else Inr (Some (Uri_with
                  (Uri_file (path_join h root (stripLeadingSeparators (CHR 0x5C # rest))))
                  (query (splitHref raw)) (fragment (splitHref raw))))))"
proof -
  have "\<not> isLetter (CHR 0x5C)"
    by (simp add: isLetter_def lowerLetters_def upperLetters_def)
  then have "\<not> isExternalHref (CHR 0x5C # rest)"
    by (cases rest; cases "tl rest") (auto simp: isExternalHref_def)
  then show ?thesis
    using assms by (simp add: resolveLocalFileUri_def Let_def split: option.splits)
qed

theorem posix_backslash_workspace_relative_witness:
  "resolveLocalFileUri testHost [CHR 0x5C, CHR ''i'', CHR ''m'', CHR ''g'', CHR 0x5C, CHR ''a'']
       (documentUri testContext) None
     = Inr (Some (Uri_file (''/workspace/img'' @ [CHR 0x5C, CHR ''a''])))
   \<and> resolveLocalFileUri (testHost\<lparr> workspaceFolders := [] \<rparr>)
         [CHR 0x5C, CHR ''i'', CHR ''m'', CHR ''g'', CHR 0x5C, CHR ''a'']
         (documentUri testContext) None
     = Inr None"
proof -
  let ?raw = "[CHR 0x5C, CHR ''i'', CHR ''m'', CHR ''g'', CHR 0x5C, CHR ''a'']"
  have p: "pathPart (splitHref ?raw) = CHR 0x5C # [CHR ''i'', CHR ''m'', CHR ''g'', CHR 0x5C, CHR ''a'']"
    by (simp add: pathPart_takeWhile)
  have q: "query (splitHref ?raw) = []" "fragment (splitHref ?raw) = []"
    by (simp_all add: query_splitHref fragment_splitHref beforeHash_def)
  have h1: "hostPlatform testHost = Posix"
    and h2: "hostPlatform (testHost\<lparr> workspaceFolders := [] \<rparr>) = Posix"
    by (simp_all add: testHost_def)
  show ?thesis
    using posix_backslash_workspace_relative [OF h1 p, of "documentUri testContext" None]
      posix_backslash_workspace_relative [OF h2 p, of "documentUri testContext" None]
    by (simp add: q workspaceRootOf_def testHost_def stripLeadingSeparators_def
        Uri_with_def Uri_file_def)
qed

theorem rewriters_fail_open_witness:
  "rewriteLinkHref (testHost\<lparr> workspaceFolders := [] \<rparr>) (testContext\<lparr> workspaceFolder := None \<rparr>)
       [CHR 0x5C, CHR ''i'', CHR ''m'', CHR ''g'', CHR 0x5C, CHR ''a'']
     = Inr \<lparr> href = [CHR 0x5C, CHR ''i'', CHR ''m'', CHR ''g'', CHR 0x5C, CHR ''a''],
             kind = Asset \<rparr>
   \<and> rewriteImageSource (testHost\<lparr> workspaceFolders := [] \<rparr>)
       (testContext\<lparr> workspaceFolder := None \<rparr>)
       [CHR 0x5C, CHR ''i'', CHR ''m'', CHR ''g'', CHR 0x5C, CHR ''a'']
     = Inr [CHR 0x5C, CHR ''i'', CHR ''m'', CHR ''g'', CHR 0x5C, CHR ''a'']"
proof -
  let ?raw = "[CHR 0x5C, CHR ''i'', CHR ''m'', CHR ''g'', CHR 0x5C, CHR ''a'']"
  let ?h = "testHost\<lparr> workspaceFolders := [] \<rparr>"
  let ?c = "testContext\<lparr> workspaceFolder := None \<rparr>"
  have p: "pathPart (splitHref ?raw) = ?raw"
    by (simp add: pathPart_takeWhile)
  have n: "resolveLocalFileUri ?h ?raw (documentUri ?c) (workspaceFolder ?c) = Inr None"
    by (simp add: resolveLocalFileUri_def Let_def p testHost_def isExternalHref_def
        isLetter_def lowerLetters_def upperLetters_def workspaceRootOf_def)
  have e: "\<not> isExternalHref (pathPart (splitHref ?raw))"
    unfolding p by (simp add: isExternalHref_def isLetter_def lowerLetters_def upperLetters_def)
  have x: "path_extname Posix ?raw = []"
    by code_simp
  have m: "\<not> isMarkdownPath ?h (pathPart (splitHref ?raw))"
    unfolding p by (simp add: isMarkdownPath_def testHost_def x toLowerCase_def
        MARKDOWN_EXTENSIONS_def)
  from rewriters_fail_open [of ?h ?c ?raw] n e m show ?thesis
    by auto
qed


section \<open>The readiness handshake of a preview session\<close>

lemma run_Nil: "run s [] = s"
  by (simp add: run_def)

lemma run_Cons: "run s (e # es) = run (step s e) es"
  by (simp add: run_def)

lemma run_append: "run s (es @ fs) = run (run s es) fs"
  by (simp add: run_def)

lemma handleMessage_other:
  assumes "m \<noteq> Some Ready"
  shows "handleMessage s m = s"
proof (cases m)
  case None
  then show ?thesis by simp
next
  case (Some msg)
  with assms show ?thesis by (cases msg) simp_all
qed

text \<open>Before the sandbox is ready nothing is posted, and the last render is the one held.\<close>

lemma run_before_ready:
  assumes "\<not> isReady s" and "Received (Some Ready) \<notin> set es"
  shows "\<not> isReady (run s es) \<and> posted (run s es) = posted s
         \<and> pendingRenderPayload (run s es)
             = (if renders es = [] then pendingRenderPayload s else Some (last (renders es)))"
  using assms
proof (induction es arbitrary: s)
  case Nil
  then show ?case by (simp add: run_Nil)
next
  case (Cons e es)
  show ?case
  proof (cases e)
    case (Rendered p)
    let ?s' = "s\<lparr> pendingRenderPayload := Some p \<rparr>"
    have st: "postRenderPayload s p = ?s'"
      using Cons.prems(1) by (simp add: postRenderPayload_def)
    have "\<not> isReady ?s'" using Cons.prems(1) by simp
    moreover have "Received (Some Ready) \<notin> set es" using Cons.prems(2) by simp
    ultimately have "\<not> isReady (run ?s' es) \<and> posted (run ?s' es) = posted ?s'
        \<and> pendingRenderPayload (run ?s' es)
            = (if renders es = [] then pendingRenderPayload ?s' else Some (last (renders es)))"
      by (rule Cons.IH)
    then show ?thesis
      using Rendered by (simp add: run_Cons st)
  next
    case (Received m)
    with Cons.prems(2) have "m \<noteq> Some Ready" by auto
    then have st: "handleMessage s m = s"
      by (rule handleMessage_other)
    have "Received (Some Ready) \<notin> set es" using Cons.prems(2) by simp
    with Cons.prems(1) have "\<not> isReady (run s es) \<and> posted (run s es) = posted s
        \<and> pendingRenderPayload (run s es)
            = (if renders es = [] then pendingRenderPayload s else Some (last (renders es)))"
      by (rule Cons.IH)
    then show ?thesis
      using Received by (simp add: run_Cons st)
  qed
qed

text \<open>The ready message posts the held payload, if there is one, and holds nothing after.\<close>

lemma ready_flushes:
  "isReady (handleMessage s (Some Ready))
   \<and> pendingRenderPayload (handleMessage s (Some Ready)) = None
   \<and> posted (handleMessage s (Some Ready))
       = posted s @ (case pendingRenderPayload s of None \<Rightarrow> [] | Some p \<Rightarrow> [p])"
  by (simp add: postMessage_def split: option.splits)

text \<open>Once ready, a session stays ready, holds nothing, and posts every render as it comes.\<close>

lemma step_ready:
  assumes "isReady s" and "pendingRenderPayload s = None"
  shows "isReady (step s e) \<and> pendingRenderPayload (step s e) = None
         \<and> posted (step s e) = posted s @ renders [e]"
proof (cases e)
  case (Rendered p)
  with assms show ?thesis by (simp add: postRenderPayload_def postMessage_def)
next
  case (Received m)
  show ?thesis
  proof (cases "m = Some Ready")
    case True
    with assms Received show ?thesis by simp
  next
    case False
    with assms Received show ?thesis by (simp add: handleMessage_other)
  qed
qed

lemma run_ready:
  assumes "isReady s" and "pendingRenderPayload s = None"
  shows "isReady (run s es) \<and> pendingRenderPayload (run s es) = None
         \<and> posted (run s es) = posted s @ renders es"
  using assms
proof (induction es arbitrary: s)
  case Nil
  then show ?case by (simp add: run_Nil)
next
  case (Cons e es)
  from step_ready [OF Cons.prems, of e]
  have a: "isReady (step s e)" and b: "pendingRenderPayload (step s e) = None"
    and c: "posted (step s e) = posted s @ renders [e]"
    by blast+
  have r: "renders (e # es) = renders [e] @ renders es"
    by (cases e) simp_all
  from Cons.IH [OF a b] show ?case
    by (simp add: run_Cons c r)
qed

lemma isReady_monotone: "isReady s \<Longrightarrow> isReady (step s e)"
proof (cases e)
  case (Rendered p)
  assume "isReady s"
  with Rendered show ?thesis by (simp add: postRenderPayload_def postMessage_def)
next
  case (Received m)
  assume r: "isReady s"
  show ?thesis
  proof (cases "m = Some Ready")
    case True
    with Received show ?thesis using ready_flushes [of s] by simp
  next
    case False
    with r Received show ?thesis by (simp add: handleMessage_other)
  qed
qed

text \<open>
  C7. A session holds at most one pending payload (the field is an option). Take any
  events \<open>before\<close> the first ready message and any events \<open>after\<close> it. Before the
  message the session is not ready, has posted nothing, and holds the most recent render
  of \<open>before\<close> (each render replaced the one held). The ready message posts exactly that
  one payload (none when nothing was rendered yet) and leaves nothing pending. From then
  on the session stays ready, whatever arrives, holds nothing, and has posted every later
  render, in order, behind the flushed one.
\<close>

theorem readiness_handshake:
  assumes "Received (Some Ready) \<notin> set before"
  shows "\<not> isReady (run newSession before)
         \<and> posted (run newSession before) = []
         \<and> pendingRenderPayload (run newSession before)
             = (if renders before = [] then None else Some (last (renders before)))
         \<and> isReady (run newSession (before @ [Received (Some Ready)]))
         \<and> posted (run newSession (before @ [Received (Some Ready)]))
             = (if renders before = [] then [] else [last (renders before)])
         \<and> pendingRenderPayload (run newSession (before @ [Received (Some Ready)])) = None
         \<and> isReady (run newSession (before @ Received (Some Ready) # after))
         \<and> posted (run newSession (before @ Received (Some Ready) # after))
             = (if renders before = [] then [] else [last (renders before)]) @ renders after
         \<and> pendingRenderPayload (run newSession (before @ Received (Some Ready) # after)) = None"
proof -
  let ?s1 = "run newSession before"
  let ?s2 = "handleMessage ?s1 (Some Ready)"
  have n: "\<not> isReady newSession" by (simp add: newSession_def)
  from run_before_ready [OF n assms]
  have b1: "\<not> isReady ?s1" and b2: "posted ?s1 = []"
    and b3: "pendingRenderPayload ?s1
        = (if renders before = [] then None else Some (last (renders before)))"
    by (simp_all add: newSession_def)
  have s2: "run newSession (before @ [Received (Some Ready)]) = ?s2"
    by (simp add: run_append run_Cons run_Nil)
  have f1: "isReady ?s2" and f2: "pendingRenderPayload ?s2 = None"
    and f3: "posted ?s2 = (if renders before = [] then [] else [last (renders before)])"
    using ready_flushes [of ?s1] b2 b3 by simp_all
  have s3: "run newSession (before @ Received (Some Ready) # after) = run ?s2 after"
    by (simp add: run_append run_Cons)
  from run_ready [OF f1 f2, of after]
  have a1: "isReady (run ?s2 after)" and a2: "pendingRenderPayload (run ?s2 after) = None"
    and a3: "posted (run ?s2 after) = posted ?s2 @ renders after"
    by blast+
  show ?thesis
    unfolding s2 s3 using b1 b2 b3 f1 f2 f3 a1 a2 a3 by simp
qed

theorem readiness_handshake_witness:
  "posted (run newSession
       ([Rendered \<lparr> html = ''<p>one</p>'', theme = Light, title = ''note.md'' \<rparr>,
         Received (Some (OpenLink ''./guide.md'' ''file:///workspace/docs/note.md'')),
         Rendered \<lparr> html = ''<p>two</p>'', theme = Dark, title = ''note.md'' \<rparr>]
        @ [Received (Some Ready)]))
     = [\<lparr> html = ''<p>two</p>'', theme = Dark, title = ''note.md'' \<rparr>]
   \<and> posted (run newSession
       ([Rendered \<lparr> html = ''<p>one</p>'', theme = Light, title = ''note.md'' \<rparr>,
         Received (Some (OpenLink ''./guide.md'' ''file:///workspace/docs/note.md'')),
         Rendered \<lparr> html = ''<p>two</p>'', theme = Dark, title = ''note.md'' \<rparr>]
        @ Received (Some Ready)
        # [Rendered \<lparr> html = ''<p>three</p>'', theme = Dark, title = ''note.md'' \<rparr>,
           Received (Some Ready),
           Rendered \<lparr> html = ''<p>four</p>'', theme = Dark, title = ''note.md'' \<rparr>]))
     = [\<lparr> html = ''<p>two</p>'', theme = Dark, title = ''note.md'' \<rparr>,
        \<lparr> html = ''<p>three</p>'', theme = Dark, title = ''note.md'' \<rparr>,
        \<lparr> html = ''<p>four</p>'', theme = Dark, title = ''note.md'' \<rparr>]"
  using readiness_handshake
    [of "[Rendered \<lparr> html = ''<p>one</p>'', theme = Light, title = ''note.md'' \<rparr>,
          Received (Some (OpenLink ''./guide.md'' ''file:///workspace/docs/note.md'')),
          Rendered \<lparr> html = ''<p>two</p>'', theme = Dark, title = ''note.md'' \<rparr>]"
        "[Rendered \<lparr> html = ''<p>three</p>'', theme = Dark, title = ''note.md'' \<rparr>,
          Received (Some Ready),
          Rendered \<lparr> html = ''<p>four</p>'', theme = Dark, title = ''note.md'' \<rparr>]"]
  by simp


section \<open>Escaping and substrings\<close>

lemma includesStr_sublist: "includesStr s t \<longleftrightarrow> sublist t s"
proof (induction s)
  case Nil
  then show ?case by auto
next
  case (Cons x xs)
  then show ?case by (cases t) (simp_all add: sublist_Cons_right)
qed

lemma replaceAll_append: "replaceAll c r (xs @ ys) = replaceAll c r xs @ replaceAll c r ys"
  by (induction xs) simp_all

lemma escapeHtml_Nil: "escapeHtml [] = []"
  by (simp add: escapeHtml_def)

lemma escapeHtml_Cons: "escapeHtml (x # xs) = escapeHtmlChar x @ escapeHtml xs"
  by (simp add: escapeHtml_def escapeHtmlChar_def replaceAll_append)

text \<open>The five replacements in sequence are one replacement per character.\<close>

lemma escapeHtml_concat: "escapeHtml v = concat (map escapeHtmlChar v)"
  by (induction v) (simp_all add: escapeHtml_Nil escapeHtml_Cons)

lemma escapeHtml_append: "escapeHtml (u @ v) = escapeHtml u @ escapeHtml v"
  by (simp add: escapeHtml_concat)

lemma escapeHtmlChar_no_markup:
  \<open>c \<in> set [CHR ''<'', CHR ''>'', CHR 0x22, CHR 0x27] \<Longrightarrow> c \<notin> set (escapeHtmlChar x)\<close>
  by (auto simp: escapeHtmlChar_def)

lemma escapeHtml_no_markup:
  \<open>c \<in> set [CHR ''<'', CHR ''>'', CHR 0x22, CHR 0x27] \<Longrightarrow> c \<notin> set (escapeHtml v)\<close>
  using escapeHtmlChar_no_markup by (induction v) (auto simp: escapeHtml_Nil escapeHtml_Cons)

lemma escapeHtml_plain: "set t \<inter> set htmlSpecials = {} \<Longrightarrow> escapeHtml t = t"
  by (induction t) (auto simp: escapeHtml_Nil escapeHtml_Cons escapeHtmlChar_def htmlSpecials_def)

lemma escapeHtml_keeps_plain:
  assumes "sublist t v" and "set t \<inter> set htmlSpecials = {}"
  shows "sublist t (p @ escapeHtml v @ s)"
proof -
  from assms(1) obtain a b where "v = a @ t @ b" by (auto simp: sublist_def)
  then have "p @ escapeHtml v @ s = (p @ escapeHtml a) @ t @ (escapeHtml b @ s)"
    using assms(2) by (simp add: escapeHtml_append escapeHtml_plain)
  then show ?thesis unfolding sublist_def by blast
qed

text \<open>A text that holds \<open>a\<close>, \<open>b\<close> and more in a row holds \<open>a\<close> directly before \<open>b\<close>.\<close>

lemma prefix_adjacent: "prefix (a # b # t) s \<Longrightarrow> adjacent a b s"
  by (auto simp: prefix_def)

lemma sublist_adjacent: "sublist (a # b # t) s \<Longrightarrow> adjacent a b s"
proof (induction s rule: adjacent.induct)
  case (1 a b x y r)
  from "1.prems" have "prefix (a # b # t) (x # y # r) \<or> sublist (a # b # t) (y # r)"
    by (simp add: sublist_Cons_right)
  then show ?case
  proof
    assume "prefix (a # b # t) (x # y # r)"
    then show ?thesis by simp
  next
    assume "sublist (a # b # t) (y # r)"
    then show ?thesis using "1.IH" by simp
  qed
next
  case (2 a b x)
  then show ?case by (simp add: sublist_Cons_right)
next
  case (3 a b)
  then show ?case by simp
qed

lemma adjacent_absent: "a \<notin> set s \<Longrightarrow> \<not> adjacent a b s"
  by (induction a b s rule: adjacent.induct) auto

lemma adjacent_append:
  "adjacent a b (xs @ ys) \<longleftrightarrow>
     adjacent a b xs \<or> adjacent a b ys \<or> (xs \<noteq> [] \<and> last xs = a \<and> ys \<noteq> [] \<and> hd ys = b)"
proof (induction a b xs rule: adjacent.induct)
  case (1 a b x y r)
  then show ?case by auto
next
  case (2 a b x)
  then show ?case by (cases ys) auto
next
  case (3 a b)
  then show ?case by simp
qed

text \<open>
  Escaped text between a head and a tail: no tag that starts with \<open>a\<close>, \<open>b\<close> appears
  when \<open>a\<close> is one of the escaped characters, the head does not end with \<open>a\<close>, and
  neither head nor tail has \<open>a\<close> directly before \<open>b\<close>.
\<close>

lemma no_tag_in_wrapped:
  assumes "a \<notin> set e" and "\<not> adjacent a b p" and "\<not> adjacent a b s"
    and "p \<noteq> []" and "last p \<noteq> a"
  shows "\<not> includesStr (p @ e @ s) (a # b # t)"
proof
  assume "includesStr (p @ e @ s) (a # b # t)"
  then have "adjacent a b (p @ (e @ s))"
    by (simp add: includesStr_sublist sublist_adjacent)
  then have "adjacent a b (e @ s)"
    using assms(2,4,5) by (simp add: adjacent_append)
  then have "e \<noteq> [] \<and> last e = a"
    using assms(1,3) adjacent_absent [of a e b] by (auto simp: adjacent_append)
  then have "a \<in> set e" using last_in_set by metis
  with assms(1) show False by simp
qed


section \<open>Fenced code\<close>

lemma firstWord_no_space: "c \<in> set (firstWord s) \<Longrightarrow> \<not> isSpace c"
  unfolding firstWord_def by (auto dest: set_takeWhileD)

lemma dropWhile_none: "(\<And>c. c \<in> set s \<Longrightarrow> \<not> P c) \<Longrightarrow> dropWhile P s = s"
  by (cases s) auto

lemma trim_no_space:
  assumes "\<And>c. c \<in> set s \<Longrightarrow> \<not> isSpace c"
  shows "trim s = s"
proof -
  have "dropWhile isSpace s = s"
    using assms by (rule dropWhile_none)
  moreover have "dropWhile isSpace (rev s) = rev s"
    using assms by (intro dropWhile_none) simp
  ultimately show ?thesis by (simp add: trim_def)
qed

lemma getFenceLanguage_firstWord: "getFenceLanguage (firstWord s) = toLowerCase (firstWord s)"
proof -
  have "trim (firstWord s) = firstWord s"
    by (rule trim_no_space) (rule firstWord_no_space)
  moreover have "firstWord (firstWord s) = firstWord s"
    unfolding firstWord_def by (rule takeWhile_idem)
  ultimately show ?thesis by (simp add: getFenceLanguage_def)
qed

lemma md_unescapeAll_Nil: "md_unescapeAll h [] = []"
  by (simp add: md_unescapeAll_def)

text \<open>The two containers \<open>renderCodeBlock\<close> writes.\<close>

lemma renderCodeBlock_cases:
  \<open>renderCodeBlock h code language =
     (if getFenceLanguage language \<noteq> [] \<and> hljs_getLanguage h (getFenceLanguage language)
      then ''<pre class="code-block"><code class="hljs language-'' @ getFenceLanguage language
             @ ''">'' @ hljs_highlight h code (getFenceLanguage language) @ ''</code></pre>''
      else ''<pre class="code-block"><code class="hljs">'' @ escapeHtml code
             @ ''</code></pre>'')\<close>
  by (simp add: renderCodeBlock_def getFenceLanguage_def Let_def)

lemma renderCodeBlock_pre: \<open>prefix ''<pre class="code-block">'' (renderCodeBlock h code language)\<close>
  by (simp add: renderCodeBlock_cases)

text \<open>
  markdown-it's default rule, with this renderer's highlighter, writes what
  \<open>renderCodeBlock\<close> returns for the first word of the unescaped info string, and a line
  feed.
\<close>

lemma defaultFenceRule_eq:
  "defaultFenceRule h tok
     = renderCodeBlock h (content tok) (firstWord (trim (md_unescapeAll h (info tok))))
       @ [CHR 0x0A]"
proof -
  let ?i = "if info tok \<noteq> [] then trim (md_unescapeAll h (info tok)) else []"
  let ?l = "if ?i \<noteq> [] then firstWord ?i else []"
  have i: "?i = trim (md_unescapeAll h (info tok))"
    by (simp add: md_unescapeAll_Nil trim_def)
  have l: "?l = firstWord ?i"
    by (simp add: firstWord_def)
  have pre: "prefix ''<pre'' (renderCodeBlock h (content tok) ?l)"
    by (simp add: renderCodeBlock_cases)
  then have ne: "renderCodeBlock h (content tok) ?l \<noteq> []"
    by auto
  have "defaultFenceRule h tok = renderCodeBlock h (content tok) ?l @ [CHR 0x0A]"
    unfolding defaultFenceRule_def Let_def using pre ne by simp
  also have "?l = firstWord (trim (md_unescapeAll h (info tok)))"
    using i l by simp
  finally show ?thesis .
qed

lemma fence_language_normalized:
  "getFenceLanguage (firstWord (trim (md_unescapeAll h i))) = getFenceLanguage (md_unescapeAll h i)"
  by (simp add: getFenceLanguage_firstWord) (simp add: getFenceLanguage_def)

lemma md_unescapeAll_plain:
  "CHR 0x5C \<notin> set i \<Longrightarrow> CHR ''&'' \<notin> set i \<Longrightarrow> md_unescapeAll h i = i"
  by (simp add: md_unescapeAll_def)

lemma plain_container_no_tag:
  assumes "a = CHR ''<''"
    and \<open>\<not> adjacent a b ''<pre class="code-block"><code class="hljs">''\<close>
    and \<open>\<not> adjacent a b (''</code></pre>'' @ s)\<close>
  shows \<open>\<not> includesStr (''<pre class="code-block"><code class="hljs">'' @ escapeHtml code
            @ ''</code></pre>'' @ s) (a # b # t)\<close>
proof (rule no_tag_in_wrapped)
  show "a \<notin> set (escapeHtml code)"
    unfolding assms(1) by (rule escapeHtml_no_markup) simp
  show \<open>\<not> adjacent a b ''<pre class="code-block"><code class="hljs">''\<close>
    by (rule assms(2))
  show \<open>\<not> adjacent a b (''</code></pre>'' @ s)\<close>
    by (rule assms(3))
  show \<open>''<pre class="code-block"><code class="hljs">'' \<noteq> []\<close>
    by simp
  show \<open>last ''<pre class="code-block"><code class="hljs">'' \<noteq> a\<close>
    unfolding assms(1) by simp
qed


lemma fence_rule_plain:
  assumes "\<not> (enableMermaid (settings ctx) \<and> getFenceLanguage (info tok) = ''mermaid'')"
    and "getFenceLanguage (md_unescapeAll h (info tok)) = []
         \<or> \<not> hljs_getLanguage h (getFenceLanguage (md_unescapeAll h (info tok)))"
  shows \<open>fence_rule h ctx tok
           = ''<pre class="code-block"><code class="hljs">'' @ escapeHtml (content tok)
             @ ''</code></pre>'' @ [CHR 0x0A]\<close>
proof -
  have "fence_rule h ctx tok = defaultFenceRule h tok"
    using assms(1) by (auto simp: fence_rule_def Let_def)
  also have "\<dots> = renderCodeBlock h (content tok)
      (firstWord (trim (md_unescapeAll h (info tok)))) @ [CHR 0x0A]"
    by (rule defaultFenceRule_eq)
  finally show ?thesis
    using assms(2) by (auto simp: renderCodeBlock_cases fence_language_normalized)
qed

lemma takeWhile_trimmed_end:
  "takeWhile (\<lambda>c. \<not> P c) (rev (dropWhile P (rev t))) = takeWhile (\<lambda>c. \<not> P c) t"
proof (induction t rule: rev_induct)
  case Nil
  then show ?case by simp
next
  case (snoc y ys)
  then show ?case by (simp add: takeWhile_tail)
qed

text \<open>The first word of a trimmed text is the first word after its leading white space.\<close>

lemma firstWord_trim: "firstWord (trim s) = firstWord (dropWhile isSpace s)"
  unfolding firstWord_def trim_def by (rule takeWhile_trimmed_end)

lemma isLetter_not_space: "isLetter c \<Longrightarrow> \<not> isSpace c"
  by (auto simp: isLetter_def isSpace_def lowerLetters_def upperLetters_def)

text \<open>
  The language of an info string made of white space, a word without white space, and
  either nothing more or white space and more: the word, lower-cased.
\<close>

lemma getFenceLanguage_word:
  assumes "list_all isSpace pre" and "w \<noteq> []" and "list_all (\<lambda>c. \<not> isSpace c) w"
    and "rest = [] \<or> isSpace (hd rest)"
  shows "getFenceLanguage (pre @ w @ rest) = toLowerCase w"
proof -
  have "dropWhile isSpace (pre @ w @ rest) = dropWhile isSpace (w @ rest)"
    using assms(1) by (intro dropWhile_append2) (simp add: list_all_iff)
  also have "\<dots> = w @ rest"
    using assms(2,3) by (cases w) simp_all
  finally have d: "dropWhile isSpace (pre @ w @ rest) = w @ rest" .
  have "takeWhile (\<lambda>c. \<not> isSpace c) rest = []"
    using assms(4) by (cases rest) auto
  moreover have "takeWhile (\<lambda>c. \<not> isSpace c) (w @ rest) = w @ takeWhile (\<lambda>c. \<not> isSpace c) rest"
    using assms(3) by (intro takeWhile_append2) (simp add: list_all_iff)
  ultimately have "firstWord (w @ rest) = w"
    by (simp add: firstWord_def)
  then show ?thesis
    by (simp add: getFenceLanguage_def firstWord_trim d)
qed

lemma getFenceLanguage_shape:
  "\<exists>pre w rest. i = pre @ w @ rest \<and> list_all isSpace pre
      \<and> list_all (\<lambda>c. \<not> isSpace c) w \<and> (rest = [] \<or> isSpace (hd rest))
      \<and> getFenceLanguage i = toLowerCase w"
proof -
  let ?t = "dropWhile isSpace i"
  let ?pre = "takeWhile isSpace i"
  let ?w = "takeWhile (\<lambda>c. \<not> isSpace c) ?t"
  let ?rest = "dropWhile (\<lambda>c. \<not> isSpace c) ?t"
  have "i = ?pre @ ?w @ ?rest" by simp
  moreover have "list_all isSpace ?pre"
    by (auto simp: list_all_iff dest: set_takeWhileD)
  moreover have "list_all (\<lambda>c. \<not> isSpace c) ?w"
    by (auto simp: list_all_iff dest: set_takeWhileD)
  moreover have "?rest = [] \<or> isSpace (hd ?rest)"
    using hd_dropWhile [of "\<lambda>c. \<not> isSpace c" ?t] by auto
  moreover have "getFenceLanguage i = toLowerCase ?w"
    using firstWord_trim [of i] by (simp add: getFenceLanguage_def firstWord_def)
  ultimately show ?thesis by blast
qed

lemma mermaid_word:
  assumes "toLowerCase w = ''mermaid''"
  shows "w \<noteq> [] \<and> list_all (\<lambda>c. \<not> isSpace c) w"
proof -
  have "\<not> isSpace c" if "c \<in> set w" for c
  proof -
    from that have "toLowerChar c \<in> set (toLowerCase w)"
      by (simp add: toLowerCase_def)
    then have "toLowerChar c \<in> set lowerLetters"
      unfolding assms by (auto simp: lowerLetters_def)
    then have "isLetter c"
      by (intro toLowerChar_lower [of c "toLowerChar c"]) simp_all
    then show ?thesis by (rule isLetter_not_space)
  qed
  moreover have "w \<noteq> []" using assms by (auto simp: toLowerCase_def)
  ultimately show ?thesis by (simp add: list_all_iff)
qed

text \<open>
  A fence is a diagram fence exactly when its info string is white space, a word that
  lower-cases to \<open>mermaid\<close>, and either nothing more or white space and more.
\<close>

lemma mermaid_info_iff:
  "getFenceLanguage i = ''mermaid'' \<longleftrightarrow>
     (\<exists>pre w rest. i = pre @ w @ rest \<and> list_all isSpace pre
        \<and> toLowerCase w = ''mermaid'' \<and> (rest = [] \<or> isSpace (hd rest)))"
proof
  assume "getFenceLanguage i = ''mermaid''"
  then show "\<exists>pre w rest. i = pre @ w @ rest \<and> list_all isSpace pre
      \<and> toLowerCase w = ''mermaid'' \<and> (rest = [] \<or> isSpace (hd rest))"
    using getFenceLanguage_shape [of i] by metis
next
  assume "\<exists>pre w rest. i = pre @ w @ rest \<and> list_all isSpace pre
      \<and> toLowerCase w = ''mermaid'' \<and> (rest = [] \<or> isSpace (hd rest))"
  then obtain pre w rest where i: "i = pre @ w @ rest" and p: "list_all isSpace pre"
    and w: "toLowerCase w = ''mermaid''" and r: "rest = [] \<or> isSpace (hd rest)"
    by blast
  from mermaid_word [OF w] have "w \<noteq> []" "list_all (\<lambda>c. \<not> isSpace c) w" by blast+
  from getFenceLanguage_word [OF p this r] show "getFenceLanguage i = ''mermaid''"
    by (simp add: i w)
qed

text \<open>
  C8. Take a fence whose info string is white space, then a word that lower-cases to
  \<open>mermaid\<close>, then nothing more or white space and more: the fences whose language (the
  first word of the trimmed info string, lower-cased) is \<open>mermaid\<close>. With diagrams
  enabled the output is the container \<open><div class="mermaid">\<close> around the escaped
  source: the source with each of \<open>& < > " '\<close> replaced by its entity, so it holds none
  of \<open>< > " '\<close>, and every stretch of the source free of the five characters stands in
  the output as written. With diagrams disabled the output starts with the code container
  \<open><pre class="code-block">\<close>; when the highlighter has no grammar for the language (as
  for \<open>mermaid\<close>, which is the language asked for when the info string has no backslash
  and no ampersand), the container holds the escaped source and the output has no
  \<open><div class="mermaid">\<close> anywhere.
\<close>

theorem mermaid_fence:
  assumes "info tok = pre @ w @ rest" and "list_all isSpace pre"
    and "toLowerCase w = ''mermaid''" and "rest = [] \<or> isSpace (hd rest)"
  shows \<open>(enableMermaid (settings ctx) \<longrightarrow>
            fence_rule h ctx tok
              = ''<div class="mermaid">'' @ escapeHtml (content tok) @ ''</div>''
            \<and> escapeHtml (content tok) = concat (map escapeHtmlChar (content tok))
            \<and> (\<forall>c \<in> set [CHR ''<'', CHR ''>'', CHR 0x22, CHR 0x27].
                  c \<notin> set (escapeHtml (content tok)))
            \<and> (\<forall>t. sublist t (content tok) \<and> set t \<inter> set htmlSpecials = {}
                  \<longrightarrow> includesStr (fence_rule h ctx tok) t))
         \<and> (\<not> enableMermaid (settings ctx) \<longrightarrow>
            prefix ''<pre class="code-block">'' (fence_rule h ctx tok)
            \<and> (CHR 0x5C \<notin> set (info tok) \<and> CHR ''&'' \<notin> set (info tok)
                  \<longrightarrow> getFenceLanguage (md_unescapeAll h (info tok)) = ''mermaid'')
            \<and> (\<not> hljs_getLanguage h (getFenceLanguage (md_unescapeAll h (info tok))) \<longrightarrow>
                  fence_rule h ctx tok
                    = ''<pre class="code-block"><code class="hljs">''
                      @ escapeHtml (content tok) @ ''</code></pre>'' @ [CHR 0x0A]
                  \<and> \<not> includesStr (fence_rule h ctx tok) ''<div class="mermaid">''))\<close>
proof -
  have l: "getFenceLanguage (info tok) = ''mermaid''"
    unfolding mermaid_info_iff using assms by blast
  show ?thesis
  proof (intro conjI impI allI ballI)
    assume en: "enableMermaid (settings ctx)"
    show out: \<open>fence_rule h ctx tok
        = ''<div class="mermaid">'' @ escapeHtml (content tok) @ ''</div>''\<close>
      using en l by (simp add: fence_rule_def Let_def)
    show "escapeHtml (content tok) = concat (map escapeHtmlChar (content tok))"
      by (rule escapeHtml_concat)
    show "c \<notin> set (escapeHtml (content tok))"
      if \<open>c \<in> set [CHR ''<'', CHR ''>'', CHR 0x22, CHR 0x27]\<close> for c
      using that by (rule escapeHtml_no_markup)
    show "includesStr (fence_rule h ctx tok) t"
      if "sublist t (content tok) \<and> set t \<inter> set htmlSpecials = {}" for t
    proof -
      from that have \<open>sublist t (''<div class="mermaid">'' @ escapeHtml (content tok) @ ''</div>'')\<close>
        by (intro escapeHtml_keeps_plain) blast+
      then show ?thesis
        unfolding out includesStr_sublist .
    qed
  next
    assume dis: "\<not> enableMermaid (settings ctx)"
    then have d: "fence_rule h ctx tok = defaultFenceRule h tok"
      by (simp add: fence_rule_def Let_def)
    show \<open>prefix ''<pre class="code-block">'' (fence_rule h ctx tok)\<close>
      unfolding d defaultFenceRule_eq using renderCodeBlock_pre prefix_prefix by blast
    show "getFenceLanguage (md_unescapeAll h (info tok)) = ''mermaid''"
      if "CHR 0x5C \<notin> set (info tok) \<and> CHR ''&'' \<notin> set (info tok)"
      using that l by (simp add: md_unescapeAll_plain)
    assume nh: "\<not> hljs_getLanguage h (getFenceLanguage (md_unescapeAll h (info tok)))"
    show plain: \<open>fence_rule h ctx tok
        = ''<pre class="code-block"><code class="hljs">'' @ escapeHtml (content tok)
          @ ''</code></pre>'' @ [CHR 0x0A]\<close>
      using dis nh by (intro fence_rule_plain) simp_all
    show \<open>\<not> includesStr (fence_rule h ctx tok) ''<div class="mermaid">''\<close>
      unfolding plain by (rule plain_container_no_tag) simp_all
  qed
qed

theorem mermaid_fence_witness:
  \<open>fence_rule testHost testContext mermaidFence
     = ''<div class="mermaid">graph TD;'' @ [CHR 0x0A] @ ''A--&gt;B;'' @ [CHR 0x0A] @ ''</div>''
   \<and> includesStr (fence_rule testHost testContext mermaidFence) ''graph TD;''
   \<and> fence_rule testHost noMermaidContext mermaidFence
     = ''<pre class="code-block"><code class="hljs">graph TD;'' @ [CHR 0x0A] @ ''A--&gt;B;''
       @ [CHR 0x0A] @ ''</code></pre>'' @ [CHR 0x0A]
   \<and> \<not> includesStr (fence_rule testHost noMermaidContext mermaidFence)
         ''<div class="mermaid">''
   \<and> fence_rule testHost testContext paddedMermaidFence
     = ''<div class="mermaid">A--&gt;B;'' @ [CHR 0x0A] @ ''</div>''
   \<and> fence_rule testHost noMermaidContext paddedMermaidFence
     = ''<pre class="code-block"><code class="hljs">A--&gt;B;'' @ [CHR 0x0A]
       @ ''</code></pre>'' @ [CHR 0x0A]\<close>
proof -
  have i: "info mermaidFence = [] @ ''mermaid'' @ []"
    by (simp add: mermaidFence_def)
  have j: "info paddedMermaidFence = [CHR 0xA0, CHR 0x09] @ ''MerMaid'' @ '' dark''"
    by (simp add: paddedMermaidFence_def)
  have p: "list_all isSpace []" "list_all isSpace [CHR 0xA0, CHR 0x09]"
    by (simp_all add: isSpace_def)
  have w: "toLowerCase ''mermaid'' = ''mermaid''" "toLowerCase ''MerMaid'' = ''mermaid''"
    by (simp_all add: toLowerCase_def toLowerChar_eval)
  have r: "[] = [] \<or> isSpace (hd [])" "'' dark'' = [] \<or> isSpace (hd '' dark'')"
    by (simp_all add: isSpace_def)
  have en: "enableMermaid (settings testContext)"
    by (simp add: testContext_def testSettings_def)
  have dis: "\<not> enableMermaid (settings noMermaidContext)"
    by (simp add: noMermaidContext_def)
  have u: "CHR 0x5C \<notin> set (info mermaidFence) \<and> CHR ''&'' \<notin> set (info mermaidFence)"
    "CHR 0x5C \<notin> set (info paddedMermaidFence) \<and> CHR ''&'' \<notin> set (info paddedMermaidFence)"
    by (simp_all add: mermaidFence_def paddedMermaidFence_def)
  have g: "\<not> hljs_getLanguage testHost ''mermaid''"
    by (simp add: testHost_def)
  have s: "sublist ''graph TD;'' (content mermaidFence)
      \<and> set ''graph TD;'' \<inter> set htmlSpecials = {}"
    by (simp add: mermaidFence_def htmlSpecials_def)
  have e: \<open>escapeHtml (content mermaidFence)
      = ''graph TD;'' @ [CHR 0x0A] @ ''A--&gt;B;'' @ [CHR 0x0A]\<close>
    \<open>escapeHtml (content paddedMermaidFence) = ''A--&gt;B;'' @ [CHR 0x0A]\<close>
    by (simp_all add: mermaidFence_def paddedMermaidFence_def escapeHtml_def)
  note m1 = mermaid_fence [OF i p(1) w(1) r(1)]
  note m2 = mermaid_fence [OF j p(2) w(2) r(2)]
  from m1 [of testContext testHost] en s
  have a: \<open>fence_rule testHost testContext mermaidFence
      = ''<div class="mermaid">'' @ escapeHtml (content mermaidFence) @ ''</div>''\<close>
    and b: "includesStr (fence_rule testHost testContext mermaidFence) ''graph TD;''"
    by blast+
  from m1 [of noMermaidContext testHost] dis u(1)
  have "getFenceLanguage (md_unescapeAll testHost (info mermaidFence)) = ''mermaid''"
    by blast
  with g have "\<not> hljs_getLanguage testHost
      (getFenceLanguage (md_unescapeAll testHost (info mermaidFence)))"
    by simp
  with m1 [of noMermaidContext testHost] dis
  have c: \<open>fence_rule testHost noMermaidContext mermaidFence
      = ''<pre class="code-block"><code class="hljs">''
        @ escapeHtml (content mermaidFence) @ ''</code></pre>'' @ [CHR 0x0A]\<close>
    and d: \<open>\<not> includesStr (fence_rule testHost noMermaidContext mermaidFence)
        ''<div class="mermaid">''\<close>
    by blast+
  from m2 [of testContext testHost] en
  have a': \<open>fence_rule testHost testContext paddedMermaidFence
      = ''<div class="mermaid">'' @ escapeHtml (content paddedMermaidFence) @ ''</div>''\<close>
    by blast
  from m2 [of noMermaidContext testHost] dis u(2)
  have "getFenceLanguage (md_unescapeAll testHost (info paddedMermaidFence)) = ''mermaid''"
    by blast
  with g have "\<not> hljs_getLanguage testHost
      (getFenceLanguage (md_unescapeAll testHost (info paddedMermaidFence)))"
    by simp
  with m2 [of noMermaidContext testHost] dis
  have c': \<open>fence_rule testHost noMermaidContext paddedMermaidFence
      = ''<pre class="code-block"><code class="hljs">''
        @ escapeHtml (content paddedMermaidFence) @ ''</code></pre>'' @ [CHR 0x0A]\<close>
    by blast
  from a b c d a' c' show ?thesis
    unfolding e by simp
qed

text \<open>
  C9. When the language given to \<open>renderCodeBlock\<close> is absent or unknown to the
  highlighter, the output is the escaped code inside
  \<open><pre class="code-block"><code class="hljs">\<close>. The escaping replaces each of
  \<open>& < > " '\<close> by its entity, so the escaped code holds none of \<open>< > " '\<close>, and the
  output has no \<open><script>\<close> anywhere. The same holds for the fence rule whenever the
  fence is not a diagram (not the language \<open>mermaid\<close> with diagrams enabled) and the
  highlighter does not know the language of its info string. The language of a text made
  of white space, a word without white space, and nothing more or white space and more, is
  that word, lower-cased.
\<close>

theorem unknown_language_escaped:
  \<open>(getFenceLanguage language = [] \<or> \<not> hljs_getLanguage h (getFenceLanguage language) \<longrightarrow>
      renderCodeBlock h code language
        = ''<pre class="code-block"><code class="hljs">'' @ escapeHtml code @ ''</code></pre>''
      \<and> \<not> includesStr (renderCodeBlock h code language) ''<script>'')
   \<and> escapeHtml code = concat (map escapeHtmlChar code)
   \<and> (\<forall>c \<in> set [CHR ''<'', CHR ''>'', CHR 0x22, CHR 0x27]. c \<notin> set (escapeHtml code))
   \<and> (\<not> (enableMermaid (settings ctx) \<and> getFenceLanguage (info tok) = ''mermaid'')
       \<and> (getFenceLanguage (md_unescapeAll h (info tok)) = []
          \<or> \<not> hljs_getLanguage h (getFenceLanguage (md_unescapeAll h (info tok)))) \<longrightarrow>
      fence_rule h ctx tok
        = ''<pre class="code-block"><code class="hljs">'' @ escapeHtml (content tok)
          @ ''</code></pre>'' @ [CHR 0x0A]
      \<and> \<not> includesStr (fence_rule h ctx tok) ''<script>'')
   \<and> (language = pre @ w @ rest \<and> list_all isSpace pre \<and> w \<noteq> []
       \<and> list_all (\<lambda>c. \<not> isSpace c) w \<and> (rest = [] \<or> isSpace (hd rest)) \<longrightarrow>
      getFenceLanguage language = toLowerCase w)\<close>
proof (intro conjI impI ballI)
  assume "language = pre @ w @ rest \<and> list_all isSpace pre \<and> w \<noteq> []
      \<and> list_all (\<lambda>c. \<not> isSpace c) w \<and> (rest = [] \<or> isSpace (hd rest))"
  then show "getFenceLanguage language = toLowerCase w"
    using getFenceLanguage_word [of pre w rest] by blast
next
  assume u: "getFenceLanguage language = []
      \<or> \<not> hljs_getLanguage h (getFenceLanguage language)"
  then show r: \<open>renderCodeBlock h code language
      = ''<pre class="code-block"><code class="hljs">'' @ escapeHtml code @ ''</code></pre>''\<close>
    by (auto simp: renderCodeBlock_cases)
  have \<open>\<not> includesStr (''<pre class="code-block"><code class="hljs">'' @ escapeHtml code
      @ ''</code></pre>'' @ []) ''<script>''\<close>
    by (rule plain_container_no_tag) simp_all
  then show \<open>\<not> includesStr (renderCodeBlock h code language) ''<script>''\<close>
    unfolding r by simp
next
  show "escapeHtml code = concat (map escapeHtmlChar code)"
    by (rule escapeHtml_concat)
next
  fix c :: char
  assume \<open>c \<in> set [CHR ''<'', CHR ''>'', CHR 0x22, CHR 0x27]\<close>
  then show "c \<notin> set (escapeHtml code)"
    by (rule escapeHtml_no_markup)
next
  assume a: "\<not> (enableMermaid (settings ctx) \<and> getFenceLanguage (info tok) = ''mermaid'')
      \<and> (getFenceLanguage (md_unescapeAll h (info tok)) = []
         \<or> \<not> hljs_getLanguage h (getFenceLanguage (md_unescapeAll h (info tok))))"
  then show f: \<open>fence_rule h ctx tok
      = ''<pre class="code-block"><code class="hljs">'' @ escapeHtml (content tok)
        @ ''</code></pre>'' @ [CHR 0x0A]\<close>
    by (intro fence_rule_plain) blast+
  show \<open>\<not> includesStr (fence_rule h ctx tok) ''<script>''\<close>
    unfolding f by (rule plain_container_no_tag) simp_all
qed

theorem unknown_language_escaped_witness:
  \<open>fence_rule testHost testContext xssFence
     = ''<pre class="code-block"><code class="hljs">''
       @ ''&lt;script&gt;alert(&#39;xss&#39;)&lt;/script&gt;'' @ [CHR 0x0A]
       @ ''</code></pre>'' @ [CHR 0x0A]
   \<and> \<not> includesStr (fence_rule testHost testContext xssFence) ''<script>''
   \<and> renderCodeBlock testHost ''a < b'' ([CHR 0xA0, CHR '' ''] @ ''UnKnown {x}'')
     = ''<pre class="code-block"><code class="hljs">a &lt; b</code></pre>''\<close>
proof -
  let ?lang = "[CHR 0xA0, CHR '' ''] @ ''UnKnown'' @ '' {x}''"
  have sh: "?lang = [CHR 0xA0, CHR '' ''] @ ''UnKnown'' @ '' {x}''
      \<and> list_all isSpace [CHR 0xA0, CHR '' ''] \<and> ''UnKnown'' \<noteq> []
      \<and> list_all (\<lambda>c. \<not> isSpace c) ''UnKnown''
      \<and> ('' {x}'' = [] \<or> isSpace (hd '' {x}''))"
    by (simp add: isSpace_def)
  have lw: "toLowerCase ''UnKnown'' = ''unknown''"
    by (simp add: toLowerCase_def toLowerChar_eval)
  note th = unknown_language_escaped
    [of ?lang testHost "''a < b''" testContext xssFence "[CHR 0xA0, CHR '' '']" "''UnKnown''"
      "'' {x}''"]
  from th sh have "getFenceLanguage ?lang = toLowerCase ''UnKnown''"
    by blast
  then have gl: "getFenceLanguage ?lang = ''unknown''"
    unfolding lw .
  have "\<not> hljs_getLanguage testHost (getFenceLanguage ?lang)"
    unfolding gl by (simp add: testHost_def)
  with th have \<open>renderCodeBlock testHost ''a < b'' ?lang
      = ''<pre class="code-block"><code class="hljs">'' @ escapeHtml ''a < b''
        @ ''</code></pre>''\<close>
    by blast
  then have pad: \<open>renderCodeBlock testHost ''a < b'' ([CHR 0xA0, CHR '' ''] @ ''UnKnown {x}'')
      = ''<pre class="code-block"><code class="hljs">a &lt; b</code></pre>''\<close>
    by (simp add: escapeHtml_def)
  have i: "info xssFence = ''unknown''"
    by (simp add: xssFence_def)
  have l: "getFenceLanguage ''unknown'' = ''unknown''"
    by (simp add: getFenceLanguage_def trim_def firstWord_def isSpace_def
        toLowerCase_def toLowerChar_eval upperLetters_def lowerLetters_def)
  have u: "md_unescapeAll testHost ''unknown'' = ''unknown''"
    by (simp add: md_unescapeAll_def)
  have m: "\<not> (enableMermaid (settings testContext)
      \<and> getFenceLanguage (info xssFence) = ''mermaid'')"
    unfolding i l by simp
  have nh: "getFenceLanguage (md_unescapeAll testHost (info xssFence)) = []
      \<or> \<not> hljs_getLanguage testHost (getFenceLanguage (md_unescapeAll testHost (info xssFence)))"
    unfolding i u l by (simp add: testHost_def)
  have e: \<open>escapeHtml (content xssFence)
      = ''&lt;script&gt;alert(&#39;xss&#39;)&lt;/script&gt;'' @ [CHR 0x0A]\<close>
    by (simp add: xssFence_def escapeHtml_def)
  from unknown_language_escaped [of "info xssFence" testHost "content xssFence" testContext xssFence]
    m nh
  have \<open>fence_rule testHost testContext xssFence
      = ''<pre class="code-block"><code class="hljs">'' @ escapeHtml (content xssFence)
        @ ''</code></pre>'' @ [CHR 0x0A]
      \<and> \<not> includesStr (fence_rule testHost testContext xssFence) ''<script>''\<close>
    by blast
  then show ?thesis unfolding e using pad by simp
qed


end
